theory Spec2Isabelle
  imports Main "HOL-Library.Word"
begin

unbundle bit_operations_syntax

section \<open>JavaScript values used by the simulator\<close>

text \<open>
  The simulator is a JavaScript class. Its registers are an \<open>Int32Array(32)\<close>, every other
  number is an IEEE double. The doubles that occur are integers, infinities or NaN: they come
  from \<open>parseInt\<close>, from register values and from \<open>+\<close>, \<open>-\<close>, \<open>*\<close> on those. A finite
  double is modelled by the integer it denotes (\<open>Fin\<close>); \<open>round_double\<close> is the rounding of an
  exact integer result to the nearest double (53 significant bits, ties to even, overflow to
  infinity). Minus zero is identified with zero: the program never distinguishes them
  (\<open>|0\<close>, \<open><\<close>, \<open>!==\<close> and property keys treat both alike).

  Strings are lists of 8-bit characters: the model covers program texts whose code units are
  below 256.
\<close>

datatype jsnum = NaN | PInf | NInf | Fin int

text \<open>A value read from the register array or from data memory: a 32-bit integer or
  \<open>undefined\<close>.\<close>

datatype jsval = Undefined | I32 "32 word"

datatype js_error = TypeError string
  \<comment> \<open>\<open>undefined.replace\<close> / \<open>undefined.includes\<close>: the name of the property read\<close>

text \<open>The number of binary digits of a positive integer.\<close>

function bit_length :: "int \<Rightarrow> nat" where
  "bit_length n = (if n \<le> 0 then 0 else Suc (bit_length (n div 2)))"
  by pat_completeness auto
termination
  by (relation "measure nat") auto

declare bit_length.simps [simp del]

definition round_double :: "int \<Rightarrow> jsnum" where
  "round_double n =
     (let a = \<bar>n\<bar> in
      if a < 2 ^ 53 then Fin n
      else
        let e = bit_length a - 53;
            q = a div 2 ^ e;
            r = a mod 2 ^ e;
            h = 2 ^ (e - 1);
            q' = (if h < r \<or> (r = h \<and> odd q) then q + 1 else q);
            m = q' * 2 ^ e
        in if 2 ^ 1024 \<le> m then (if n < 0 then NInf else PInf)
           else Fin (if n < 0 then - m else m))"

text \<open>\<open>ToNumber\<close> on a register or memory value: \<open>undefined\<close> becomes NaN.\<close>

fun to_number :: "jsval \<Rightarrow> jsnum" where
  "to_number Undefined = NaN"
| "to_number (I32 w) = Fin (sint w)"

text \<open>\<open>ToInt32\<close>, the conversion behind \<open>x | 0\<close> and the operands of \<open>&\<close>, \<open>|\<close>, \<open><<\<close>:
  NaN and the infinities become 0, a finite integer is reduced modulo \<open>2^32\<close>.\<close>

fun to_int32 :: "jsnum \<Rightarrow> 32 word" where
  "to_int32 (Fin n) = word_of_int n"
| "to_int32 NaN = 0"
| "to_int32 PInf = 0"
| "to_int32 NInf = 0"

fun js_add :: "jsnum \<Rightarrow> jsnum \<Rightarrow> jsnum" where
  "js_add (Fin a) (Fin b) = round_double (a + b)"
| "js_add NaN y = NaN"
| "js_add x NaN = NaN"
| "js_add PInf NInf = NaN"
| "js_add NInf PInf = NaN"
| "js_add PInf y = PInf"
| "js_add NInf y = NInf"
| "js_add (Fin a) PInf = PInf"
| "js_add (Fin a) NInf = NInf"

fun js_neg :: "jsnum \<Rightarrow> jsnum" where
  "js_neg (Fin a) = Fin (- a)"
| "js_neg NaN = NaN"
| "js_neg PInf = NInf"
| "js_neg NInf = PInf"

definition js_sub :: "jsnum \<Rightarrow> jsnum \<Rightarrow> jsnum" where
  "js_sub x y = js_add x (js_neg y)"

fun js_sign :: "jsnum \<Rightarrow> int" where
  "js_sign (Fin a) = sgn a"
| "js_sign PInf = 1"
| "js_sign NInf = - 1"
| "js_sign NaN = 0"

definition js_mul :: "jsnum \<Rightarrow> jsnum \<Rightarrow> jsnum" where
  "js_mul x y =
     (case (x, y) of
        (Fin a, Fin b) \<Rightarrow> round_double (a * b)
      | (NaN, _) \<Rightarrow> NaN
      | (_, NaN) \<Rightarrow> NaN
      | _ \<Rightarrow>
          let sg = js_sign x * js_sign y
          in if sg = 0 then NaN else if 0 < sg then PInf else NInf)"

fun js_lt :: "jsnum \<Rightarrow> jsnum \<Rightarrow> bool" where
  "js_lt (Fin a) (Fin b) = (a < b)"
| "js_lt NaN y = False"
| "js_lt x NaN = False"
| "js_lt PInf y = False"
| "js_lt x NInf = False"
| "js_lt NInf y = True"
| "js_lt (Fin a) PInf = True"

section \<open>String primitives\<close>

text \<open>White space of \<open>trim\<close>, of the regular expression class \<open>\s\<close> and of \<open>parseInt\<close>,
  among the code units below 256: TAB, LF, VT, FF, CR, space and the no-break space.\<close>

definition is_space :: "char \<Rightarrow> bool" where
  "is_space c = (c \<in> set [CHR 0x09, CHR 0x0A, CHR 0x0B, CHR 0x0C, CHR 0x0D, CHR 0x20, CHR 0xA0])"

definition trim :: "string \<Rightarrow> string" where
  "trim s = rev (dropWhile is_space (rev (dropWhile is_space s)))"

definition startsWith :: "string \<Rightarrow> char \<Rightarrow> bool" where
  "startsWith s c = (case s of [] \<Rightarrow> False | d # _ \<Rightarrow> d = c)"

text \<open>\<open>s.split('\n')\<close>: the pieces between line feeds; the empty text has one empty line.\<close>

fun split_char :: "char \<Rightarrow> string \<Rightarrow> string \<Rightarrow> string list" where
  "split_char sep cur [] = [rev cur]"
| "split_char sep cur (c # cs) =
     (if c = sep then rev cur # split_char sep [] cs else split_char sep (c # cur) cs)"

text \<open>\<open>s.split(/\s+/)\<close>: the pieces between maximal runs of white space. A run at the start
  or at the end of \<open>s\<close> leaves an empty first or last piece. The flag tells whether the
  previous character belonged to a run.\<close>

fun split_ws_from :: "bool \<Rightarrow> string \<Rightarrow> string \<Rightarrow> string list" where
  "split_ws_from inrun cur [] = [rev cur]"
| "split_ws_from inrun cur (c # cs) =
     (if is_space c
      then (if inrun then split_ws_from True cur cs else rev cur # split_ws_from True [] cs)
      else split_ws_from False (c # cur) cs)"

definition split_ws :: "string \<Rightarrow> string list" where
  "split_ws s = split_ws_from False [] s"

text \<open>\<open>toUpperCase\<close>. The letters a to z are mapped to A to Z. Every other character is
  kept: the result is only ever compared with the mnemonics below, which are upper-case ASCII
  without a double S, and in JavaScript the upper case of a non-ASCII character below 256 is
  either non-ASCII or (for the sharp s) \<open>SS\<close>, so the comparisons come out the same.\<close>

definition upper_char :: "char \<Rightarrow> char" where
  "upper_char c =
     (let n = (of_char c :: int) in if 97 \<le> n \<and> n \<le> 122 then char_of (n - 32) else c)"

definition toUpperCase :: "string \<Rightarrow> string" where
  "toUpperCase s = map upper_char s"

text \<open>\<open>parts[k]\<close>: \<open>undefined\<close> (here \<open>None\<close>) beyond the end of the array.\<close>

definition nth_opt :: "'a list \<Rightarrow> nat \<Rightarrow> 'a option" where
  "nth_opt xs k = (if k < length xs then Some (xs ! k) else None)"

section \<open>parseInt\<close>

definition digit_of :: "int \<Rightarrow> char \<Rightarrow> int option" where
  "digit_of radix c =
     (let n = (of_char c :: int);
          d = (if 48 \<le> n \<and> n \<le> 57 then Some (n - 48)
               else if 97 \<le> n \<and> n \<le> 122 then Some (n - 87)
               else if 65 \<le> n \<and> n \<le> 90 then Some (n - 55)
               else None)
      in case d of None \<Rightarrow> None | Some v \<Rightarrow> if v < radix then Some v else None)"

definition digits_value :: "int \<Rightarrow> string \<Rightarrow> int" where
  "digits_value radix ds =
     foldl (\<lambda>acc c. acc * radix + (case digit_of radix c of None \<Rightarrow> 0 | Some d \<Rightarrow> d)) 0 ds"

text \<open>\<open>parseInt(string)\<close> with no radix argument: leading white space is dropped, then an
  optional sign, then an optional \<open>0x\<close>/\<open>0X\<close> (which selects radix 16), then the longest
  run of digits of the radix. No digit gives NaN; otherwise the value is the double nearest
  to the number written. Trailing characters are ignored.\<close>

definition parseInt :: "string \<Rightarrow> jsnum" where
  "parseInt inputString =
     (let s = dropWhile is_space inputString;
          neg = startsWith s (CHR ''-'');
          s1 = (if startsWith s (CHR ''+'') \<or> startsWith s (CHR ''-'') then tl s else s);
          hex = (case s1 of a # b # _ \<Rightarrow> a = CHR ''0'' \<and> (b = CHR ''x'' \<or> b = CHR ''X'')
                 | _ \<Rightarrow> False);
          radix = (if hex then 16 else 10);
          s2 = (if hex then drop 2 s1 else s1);
          z = takeWhile (\<lambda>c. digit_of radix c \<noteq> None) s2
      in if z = [] then NaN
         else round_double (if neg then - digits_value radix z else digits_value radix z))"

text \<open>\<open>parseInt(parts[k])\<close>: a missing array element is \<open>undefined\<close>, which \<open>parseInt\<close>
  first converts to the string \<open>undefined\<close>.\<close>

definition parseInt_arg :: "string option \<Rightarrow> jsnum" where
  "parseInt_arg tok = (case tok of None \<Rightarrow> parseInt ''undefined'' | Some t \<Rightarrow> parseInt t)"

section \<open>Machine state\<close>

text \<open>An element of \<open>instrMemory\<close>: \<open>{addr, text, binary}\<close>.\<close>

record instr =
  addr :: nat
  instr_text :: string
  binary :: string

text \<open>The trace. The wording of a line is presentation; an entry keeps what the line is made
  from: the load message, the end-of-program message, the line of an executed instruction
  (program counter, source text and the annotation of LW, SW or PRINT), or the error line
  (program counter and the exception caught).\<close>

datatype annot = NoAnnot | Leu "32 word" jsnum | Salvou jsval jsnum | Saida jsval

datatype log_entry = LogLoaded | LogEnd | LogStep nat string annot | LogError nat js_error

text \<open>The fields of \<open>RISCV_Simulator\<close>. \<open>dataMemory\<close> is a plain object used as a dictionary
  keyed by the address (a number, so the key may also be NaN or an infinity); a stored value is
  whatever \<open>this.regs[rs2]\<close> was, \<open>undefined\<close> included. The program counter and the
  instruction addresses are multiples of 4 counted up from 0, far below \<open>2^53\<close> where doubles
  are exact: they are natural numbers here.\<close>

record sim =
  pc :: nat
  regs :: "32 word list"
  instrMemory :: "instr list"
  dataMemory :: "jsnum \<rightharpoonup> jsval"
  halted :: bool
  logs :: "log_entry list"

text \<open>What a call of \<open>step\<close> gives back to its caller: \<open>false\<close>, the object
  \<open>{executed: true, binary}\<close>, or an exception that leaves \<open>step\<close>.\<close>

datatype step_result = ReturnFalse | Executed string | Throws js_error

definition reset :: "sim \<Rightarrow> sim" where
  "reset s = s\<lparr>pc := 0, regs := replicate 32 0, instrMemory := [], dataMemory := Map.empty,
               halted := True, logs := []\<rparr>"

text \<open>Reading and writing \<open>this.regs[idx]\<close>. A typed array yields \<open>undefined\<close> for an index
  that is not one of its elements and ignores an assignment to it.\<close>

definition reg_read :: "32 word list \<Rightarrow> jsnum \<Rightarrow> jsval" where
  "reg_read rg idx =
     (case idx of
        Fin n \<Rightarrow> if 0 \<le> n \<and> nat n < length rg then I32 (rg ! nat n) else Undefined
      | _ \<Rightarrow> Undefined)"

definition reg_write :: "32 word list \<Rightarrow> jsnum \<Rightarrow> 32 word \<Rightarrow> 32 word list" where
  "reg_write rg idx v =
     (case idx of
        Fin n \<Rightarrow> if 0 \<le> n \<and> nat n < length rg then rg[nat n := v] else rg
      | _ \<Rightarrow> rg)"

text \<open>\<open>if (rd !== 0) this.regs[rd] = res\<close>\<close>

definition write_back :: "jsnum \<Rightarrow> 32 word \<Rightarrow> 32 word list \<Rightarrow> 32 word list" where
  "write_back rd res rg = (if rd \<noteq> Fin 0 then reg_write rg rd res else rg)"

text \<open>\<open>this.dataMemory[addr] || 0\<close>: a missing key, a stored \<open>undefined\<close> and a stored 0
  all give 0.\<close>

definition mem_read :: "(jsnum \<rightharpoonup> jsval) \<Rightarrow> jsnum \<Rightarrow> 32 word" where
  "mem_read m a = (case m a of Some (I32 w) \<Rightarrow> w | _ \<Rightarrow> 0)"

definition is_digit :: "char \<Rightarrow> bool" where
  "is_digit c = (48 \<le> (of_char c :: int) \<and> (of_char c :: int) \<le> 57)"

text \<open>\<open>getRegIndex(parts[k])\<close>. Calling \<open>replace\<close> on a missing token throws a TypeError.\<close>

definition getRegIndex :: "string option \<Rightarrow> js_error + jsnum" where
  "getRegIndex regName =
     (case regName of
        None \<Rightarrow> Inl (TypeError ''replace'')
      | Some r \<Rightarrow>
          let clean = filter is_digit r;
              idx = parseInt clean
          in Inr (if idx = NaN then Fin 0 else idx))"

text \<open>Sequencing inside the \<open>try\<close> block: an exception skips the rest.\<close>

definition then_do :: "'e + 'a \<Rightarrow> ('a \<Rightarrow> 'e + 'b) \<Rightarrow> 'e + 'b" where
  "then_do m f = (case m of Inl e \<Rightarrow> Inl e | Inr x \<Rightarrow> f x)"

text \<open>\<open>parts[2].includes('(')\<close>: a TypeError on a missing token.\<close>

definition includes_paren :: "string option \<Rightarrow> js_error + bool" where
  "includes_paren tok =
     (case tok of None \<Rightarrow> Inl (TypeError ''includes'') | Some t \<Rightarrow> Inr (CHR ''('' \<in> set t))"

text \<open>The operators of the arithmetic branches, on the values read from the registers.\<close>

definition op_add :: "jsval \<Rightarrow> jsval \<Rightarrow> 32 word" where
  "op_add v1 v2 = to_int32 (js_add (to_number v1) (to_number v2))"

definition op_sub :: "jsval \<Rightarrow> jsval \<Rightarrow> 32 word" where
  "op_sub v1 v2 = to_int32 (js_sub (to_number v1) (to_number v2))"

definition op_mult :: "jsval \<Rightarrow> jsval \<Rightarrow> 32 word" where
  "op_mult v1 v2 = to_int32 (js_mul (to_number v1) (to_number v2))"

definition op_and :: "jsval \<Rightarrow> jsval \<Rightarrow> 32 word" where
  "op_and v1 v2 = to_int32 (to_number v1) AND to_int32 (to_number v2)"

definition op_or :: "jsval \<Rightarrow> jsval \<Rightarrow> 32 word" where
  "op_or v1 v2 = to_int32 (to_number v1) OR to_int32 (to_number v2)"

definition op_slt :: "jsval \<Rightarrow> jsval \<Rightarrow> 32 word" where
  "op_slt v1 v2 = (if js_lt (to_number v1) (to_number v2) then 1 else 0)"

text \<open>\<open>v1 << v2\<close>: the left operand by \<open>ToInt32\<close>, the shift count is the low five bits of
  the right operand.\<close>

definition op_sll :: "jsval \<Rightarrow> jsval \<Rightarrow> 32 word" where
  "op_sll v1 v2 = push_bit (unat (to_int32 (to_number v2) AND 31)) (to_int32 (to_number v1))"

definition op_addi :: "jsval \<Rightarrow> jsnum \<Rightarrow> 32 word" where
  "op_addi v1 imm = to_int32 (js_add (to_number v1) imm)"

definition op_slti :: "jsval \<Rightarrow> jsnum \<Rightarrow> 32 word" where
  "op_slti v1 imm = (if js_lt (to_number v1) imm then 1 else 0)"

text \<open>The decode of \<open>step\<close>: commas and parentheses become spaces, then the text is split at
  white space.\<close>

definition decode :: "string \<Rightarrow> string list" where
  "decode t =
     split_ws (map (\<lambda>c. if c = CHR '','' \<or> c = CHR ''('' \<or> c = CHR '')'' then CHR '' '' else c) t)"

section \<open>The simulator of src/unnamed/part_000\<close>

definition opcodes :: "(string \<times> string) list" where
  "opcodes =
     [(''ADD'', ''0110011''), (''SUB'', ''0110011''), (''AND'', ''0110011''),
      (''OR'', ''0110011''), (''SLT'', ''0110011''), (''MULT'', ''0110011''),
      (''ADDI'', ''0010011''), (''SLTI'', ''0010011''),
      (''LW'', ''0000011''), (''SW'', ''0100011''), (''PRINT'', ''1110011'')]"

text \<open>\<open>split\<close> never returns an empty array (lemma \<open>split_ws_from_not_Nil\<close>), so \<open>parts[0]\<close> exists;
  the first case below is never taken.\<close>

definition generateFakeBinary :: "string \<Rightarrow> string" where
  "generateFakeBinary ins =
     (let parts = split_ws (map (\<lambda>c. if c = CHR '','' then CHR '' '' else c) ins);
          op = (case parts of [] \<Rightarrow> [] | p # _ \<Rightarrow> toUpperCase p);
          opcode = (case map_of opcodes op of None \<Rightarrow> ''0000000'' | Some b \<Rightarrow> b)
      in ''??????? ????? ????? ??? '' @ opcode)"

text \<open>The body of \<open>lines.forEach\<close> in \<open>loadProgram\<close>, with the local \<open>currentAddr\<close> and the
  instruction list as loop state.\<close>

fun load_lines :: "string list \<Rightarrow> nat \<Rightarrow> instr list \<Rightarrow> instr list" where
  "load_lines [] currentAddr im = im"
| "load_lines (line # rest) currentAddr im =
     (let cleanLine = trim line
      in if cleanLine \<noteq> [] \<and> \<not> startsWith cleanLine (CHR ''#'')
         then load_lines rest (currentAddr + 4)
                (im @ [\<lparr>addr = currentAddr, instr_text = cleanLine,
                        binary = generateFakeBinary cleanLine\<rparr>])
         else load_lines rest currentAddr im)"

definition loadProgram :: "string \<Rightarrow> sim \<Rightarrow> sim" where
  "loadProgram text0 s =
     (let s1 = reset s;
          lines = split_char (CHR 0x0A) [] text0;
          s2 = s1\<lparr>instrMemory := load_lines lines 0 (instrMemory s1)\<rparr>;
          s3 = (if length (instrMemory s2) > 0 then s2\<lparr>halted := False\<rparr> else s2)
      in s3\<lparr>logs := logs s3 @ [LogLoaded]\<rparr>)"

text \<open>The chain of \<open>if\<close>/\<open>else if\<close> that computes \<open>res\<close> in the register-register branch,
  and the one of the immediate branch. \<open>res\<close> starts as 0.\<close>

definition alu :: "string \<Rightarrow> jsval \<Rightarrow> jsval \<Rightarrow> 32 word" where
  "alu op v1 v2 =
     (if op = ''ADD'' then op_add v1 v2
      else if op = ''SUB'' then op_sub v1 v2
      else if op = ''MULT'' then op_mult v1 v2
      else if op = ''AND'' then op_and v1 v2
      else if op = ''OR'' then op_or v1 v2
      else if op = ''SLT'' then op_slt v1 v2
      else if op = ''SLL'' then op_sll v1 v2
      else 0)"

definition alu_imm :: "string \<Rightarrow> jsval \<Rightarrow> jsnum \<Rightarrow> 32 word" where
  "alu_imm op v1 imm =
     (if op = ''ADDI'' then op_addi v1 imm
      else if op = ''SLTI'' then op_slti v1 imm
      else 0)"

text \<open>The \<open>try\<close> block of \<open>step\<close> up to the call of \<open>this.log\<close>. Of the simulator it reads
  and assigns only \<open>this.regs\<close> and \<open>this.dataMemory\<close>, so it is a function of these two: it
  gives their new values and the annotation appended to \<open>logMsg\<close>, or the exception thrown.
  In every branch the calls that can throw come before the first assignment, so the handler
  sees registers and memory unchanged.\<close>

definition execute ::
  "string \<Rightarrow> string list \<Rightarrow> 32 word list \<Rightarrow> (jsnum \<rightharpoonup> jsval)
     \<Rightarrow> js_error + (32 word list \<times> (jsnum \<rightharpoonup> jsval) \<times> annot)" where
  "execute op parts rg mem =
     (if op \<in> set [''ADD'', ''SUB'', ''AND'', ''OR'', ''SLT'', ''MULT'', ''SLL''] then
        then_do (getRegIndex (nth_opt parts 1)) (\<lambda>rd.
        then_do (getRegIndex (nth_opt parts 2)) (\<lambda>rs1.
        then_do (getRegIndex (nth_opt parts 3)) (\<lambda>rs2.
          let v1 = reg_read rg rs1;
              v2 = reg_read rg rs2;
              res = alu op v1 v2
          in Inr (write_back rd res rg, mem, NoAnnot))))
      else if op \<in> set [''ADDI'', ''SLTI''] then
        then_do (getRegIndex (nth_opt parts 1)) (\<lambda>rd.
        then_do (getRegIndex (nth_opt parts 2)) (\<lambda>rs1.
          let imm = parseInt_arg (nth_opt parts 3);
              v1 = reg_read rg rs1;
              res = alu_imm op v1 imm
          in Inr (write_back rd res rg, mem, NoAnnot)))
      else if op = ''LW'' then
        then_do (getRegIndex (nth_opt parts 1)) (\<lambda>rd.
        then_do (getRegIndex (nth_opt parts 2)) (\<lambda>rs1.
          let offset = parseInt_arg (nth_opt parts 3);
              a = js_add (to_number (reg_read rg rs1)) offset;
              val = mem_read mem a
          in Inr (write_back rd val rg, mem, Leu val a)))
      else if op = ''SW'' then
        then_do (getRegIndex (nth_opt parts 1)) (\<lambda>rs2.
        then_do (getRegIndex (nth_opt parts 2)) (\<lambda>rs1.
          let offset = parseInt_arg (nth_opt parts 3);
              a = js_add (to_number (reg_read rg rs1)) offset;
              stored = reg_read rg rs2
          in Inr (rg, mem(a \<mapsto> stored), Salvou stored a)))
      else if op = ''PRINT'' then
        then_do (getRegIndex (nth_opt parts 1)) (\<lambda>reg.
          Inr (rg, mem, Saida (reg_read rg reg)))
      else Inr (rg, mem, NoAnnot))"

text \<open>\<open>step\<close>. \<open>parts[0].toUpperCase()\<close> stands before the \<open>try\<close>: were \<open>parts\<close> empty,
  the TypeError would leave \<open>step\<close>.\<close>

definition step :: "sim \<Rightarrow> step_result \<times> sim" where
  "step s =
     (if halted s then (ReturnFalse, s)
      else
        (case find (\<lambda>i. addr i = pc s) (instrMemory s) of
          None \<Rightarrow> (ReturnFalse, s\<lparr>halted := True, logs := logs s @ [LogEnd]\<rparr>)
        | Some currentInstr \<Rightarrow>
            (let parts = decode (instr_text currentInstr)
             in (case nth_opt parts 0 of
                   None \<Rightarrow> (Throws (TypeError ''toUpperCase''), s)
                 | Some p0 \<Rightarrow>
                     (case execute (toUpperCase p0) parts (regs s) (dataMemory s) of
                        Inl e \<Rightarrow>
                          (ReturnFalse,
                           s\<lparr>logs := logs s @ [LogError (pc s) e], halted := True\<rparr>)
                      | Inr (rg, mem, an) \<Rightarrow>
                          (Executed (binary currentInstr),
                           s\<lparr>regs := rg, dataMemory := mem,
                             logs := logs s @ [LogStep (pc s) (instr_text currentInstr) an],
                             pc := pc s + 4\<rparr>))))))"

section \<open>The simulator of src/script.js\<close>

definition opcodes_script :: "(string \<times> string) list" where
  "opcodes_script =
     [(''ADD'', ''0110011''), (''SUB'', ''0110011''), (''LW'', ''0000011''),
      (''SW'', ''0100011''), (''ADDI'', ''0010011''), (''BEQ'', ''1100011'')]"

text \<open>Here the mnemonic is \<open>instr.split(' ')[0]\<close>: the text up to the first space.\<close>

definition generateFakeBinary_script :: "string \<Rightarrow> string" where
  "generateFakeBinary_script ins =
     (let op = (case split_char (CHR '' '') [] ins of [] \<Rightarrow> [] | p # _ \<Rightarrow> toUpperCase p);
          opcode = (case map_of opcodes_script op of None \<Rightarrow> ''0000000'' | Some b \<Rightarrow> b)
      in ''??????? ????? ????? ??? '' @ opcode)"

fun load_lines_script :: "string list \<Rightarrow> nat \<Rightarrow> instr list \<Rightarrow> instr list" where
  "load_lines_script [] currentAddr im = im"
| "load_lines_script (line # rest) currentAddr im =
     (let cleanLine = trim line
      in if cleanLine \<noteq> [] \<and> \<not> startsWith cleanLine (CHR ''#'')
         then load_lines_script rest (currentAddr + 4)
                (im @ [\<lparr>addr = currentAddr, instr_text = cleanLine,
                        binary = generateFakeBinary_script cleanLine\<rparr>])
         else load_lines_script rest currentAddr im)"

definition loadProgram_script :: "string \<Rightarrow> sim \<Rightarrow> sim" where
  "loadProgram_script text0 s =
     (let s1 = reset s;
          lines = split_char (CHR 0x0A) [] text0;
          s2 = s1\<lparr>instrMemory := load_lines_script lines 0 (instrMemory s1)\<rparr>;
          s3 = (if length (instrMemory s2) > 0 then s2\<lparr>halted := False\<rparr> else s2)
      in s3\<lparr>logs := logs s3 @ [LogLoaded]\<rparr>)"

text \<open>The second variant chooses \<open>res\<close> by a sequence of \<open>if\<close> statements without
  \<open>else\<close>, each overwriting \<open>res\<close>.\<close>

definition alu_script :: "string \<Rightarrow> jsval \<Rightarrow> jsval \<Rightarrow> 32 word" where
  "alu_script op v1 v2 =
     (let res = 0;
          res = (if op = ''ADD'' then op_add v1 v2 else res);
          res = (if op = ''SUB'' then op_sub v1 v2 else res);
          res = (if op = ''MULT'' then op_mult v1 v2 else res);
          res = (if op = ''AND'' then op_and v1 v2 else res);
          res = (if op = ''OR'' then op_or v1 v2 else res);
          res = (if op = ''SLT'' then op_slt v1 v2 else res);
          res = (if op = ''SLL'' then op_sll v1 v2 else res)
      in res)"

definition alu_imm_script :: "string \<Rightarrow> jsval \<Rightarrow> jsnum \<Rightarrow> 32 word" where
  "alu_imm_script op v1 imm =
     (let res = 0;
          res = (if op = ''ADDI'' then op_addi v1 imm else res);
          res = (if op = ''SLTI'' then op_slti v1 imm else res)
      in res)"

text \<open>The \<open>try\<close> block of the second variant. One branch serves the register-register and the
  immediate instructions. The LW branch evaluates \<open>parts[2].includes('(')\<close>, which throws when
  the token is missing and has no other effect.\<close>

definition execute_script ::
  "string \<Rightarrow> string list \<Rightarrow> 32 word list \<Rightarrow> (jsnum \<rightharpoonup> jsval)
     \<Rightarrow> js_error + (32 word list \<times> (jsnum \<rightharpoonup> jsval) \<times> annot)" where
  "execute_script op parts rg mem =
     (if op \<in> set [''ADD'', ''SUB'', ''AND'', ''OR'', ''SLT'', ''MULT'', ''ADDI'', ''SLTI'', ''SLL'']
      then
        then_do (getRegIndex (nth_opt parts 1)) (\<lambda>rd.
        then_do (getRegIndex (nth_opt parts 2)) (\<lambda>rs1.
        then_do (if op \<in> set [''ADDI'', ''SLTI''] then
                   let imm = parseInt_arg (nth_opt parts 3);
                       v1 = reg_read rg rs1
                   in Inr (alu_imm_script op v1 imm)
                 else
                   then_do (getRegIndex (nth_opt parts 3)) (\<lambda>rs2.
                     let v1 = reg_read rg rs1;
                         v2 = reg_read rg rs2
                     in Inr (alu_script op v1 v2)))
          (\<lambda>res. Inr (write_back rd res rg, mem, NoAnnot))))
      else if op = ''LW'' then
        then_do (getRegIndex (nth_opt parts 1)) (\<lambda>rd.
        then_do (includes_paren (nth_opt parts 2)) (\<lambda>paren.
        then_do (getRegIndex (nth_opt parts 2)) (\<lambda>rs1.
          let offset = parseInt_arg (nth_opt parts 3);
              a = js_add (to_number (reg_read rg rs1)) offset;
              val = mem_read mem a
          in Inr (write_back rd val rg, mem, Leu val a))))
      else if op = ''SW'' then
        then_do (getRegIndex (nth_opt parts 1)) (\<lambda>rs2.
        then_do (getRegIndex (nth_opt parts 2)) (\<lambda>rs1.
          let offset = parseInt_arg (nth_opt parts 3);
              a = js_add (to_number (reg_read rg rs1)) offset;
              stored = reg_read rg rs2
          in Inr (rg, mem(a \<mapsto> stored), Salvou stored a)))
      else if op = ''PRINT'' then
        then_do (getRegIndex (nth_opt parts 1)) (\<lambda>reg.
          Inr (rg, mem, Saida (reg_read rg reg)))
      else Inr (rg, mem, NoAnnot))"

definition step_script :: "sim \<Rightarrow> step_result \<times> sim" where
  "step_script s =
     (if halted s then (ReturnFalse, s)
      else
        (case find (\<lambda>i. addr i = pc s) (instrMemory s) of
          None \<Rightarrow> (ReturnFalse, s\<lparr>halted := True, logs := logs s @ [LogEnd]\<rparr>)
        | Some currentInstr \<Rightarrow>
            (let parts = decode (instr_text currentInstr)
             in (case nth_opt parts 0 of
                   None \<Rightarrow> (Throws (TypeError ''toUpperCase''), s)
                 | Some p0 \<Rightarrow>
                     (case execute_script (toUpperCase p0) parts (regs s) (dataMemory s) of
                        Inl e \<Rightarrow>
                          (ReturnFalse,
                           s\<lparr>logs := logs s @ [LogError (pc s) e], halted := True\<rparr>)
                      | Inr (rg, mem, an) \<Rightarrow>
                          (Executed (binary currentInstr),
                           s\<lparr>regs := rg, dataMemory := mem,
                             logs := logs s @ [LogStep (pc s) (instr_text currentInstr) an],
                             pc := pc s + 4\<rparr>))))))"

text \<open>Both variants assume their collaborators in the page (the log container and the memory
  view) are present, as they are in the page the scripts ship with: the calls into the DOM
  made by \<open>log\<close> and \<open>updateMemoryView\<close> change no field of the simulator.\<close>

section \<open>Running the machine\<close>

text \<open>\<open>n\<close> calls of \<open>step\<close> in a row, as a driver makes them: the results in order and the
  final state.\<close>

fun steps :: "nat \<Rightarrow> sim \<Rightarrow> step_result list \<times> sim" where
  "steps 0 s = ([], s)"
| "steps (Suc n) s =
     (let (r, s1) = step s; (rs, s2) = steps n s1 in (r # rs, s2))"

fun steps_script :: "nat \<Rightarrow> sim \<Rightarrow> step_result list \<times> sim" where
  "steps_script 0 s = ([], s)"
| "steps_script (Suc n) s =
     (let (r, s1) = step_script s; (rs, s2) = steps_script n s1 in (r # rs, s2))"

section \<open>Vocabulary of the properties\<close>

text \<open>The state the constructor leaves: it calls \<open>reset\<close> on the new object.\<close>

definition new_sim :: sim where
  "new_sim = \<lparr>pc = 0, regs = replicate 32 0, instrMemory = [], dataMemory = Map.empty,
              halted = True, logs = []\<rparr>"

text \<open>The fetch and decode of \<open>step\<close>, read off its first lines: the machine is running, the
  instruction list has a record at the program counter, and its text decodes to the tokens
  \<open>parts\<close> with mnemonic \<open>op\<close>. Both variants fetch and decode alike.\<close>

definition fetch_decode :: "sim \<Rightarrow> (instr \<times> string \<times> string list) option" where
  "fetch_decode s =
     (if halted s then None
      else (case find (\<lambda>i. addr i = pc s) (instrMemory s) of
              None \<Rightarrow> None
            | Some currentInstr \<Rightarrow>
                (case decode (instr_text currentInstr) of
                   [] \<Rightarrow> None
                 | p0 # ps \<Rightarrow> Some (currentInstr, toUpperCase p0, p0 # ps))))"

definition is_executed :: "step_result \<Rightarrow> bool" where
  "is_executed r = (case r of Executed b \<Rightarrow> True | _ \<Rightarrow> False)"

text \<open>The mnemonics some branch of \<open>step\<close> handles.\<close>

definition known_mnemonics :: "string list" where
  "known_mnemonics =
     [''ADD'', ''SUB'', ''AND'', ''OR'', ''SLT'', ''MULT'', ''SLL'', ''ADDI'', ''SLTI'',
      ''LW'', ''SW'', ''PRINT'']"

text \<open>An index that is no element of the 32-element register array: 32 or more.\<close>

definition out_of_range :: "jsnum \<Rightarrow> bool" where
  "out_of_range idx = (case idx of Fin n \<Rightarrow> 32 \<le> n | PInf \<Rightarrow> True | _ \<Rightarrow> False)"

text \<open>The number of register tokens the branch of a mnemonic passes to \<open>getRegIndex\<close>:
  \<open>parts[1]\<close> to \<open>parts[3]\<close> in the register-register branch, \<open>parts[1]\<close> and
  \<open>parts[2]\<close> in the immediate, load and store branches, \<open>parts[1]\<close> for PRINT.\<close>

definition register_tokens :: "string \<Rightarrow> nat" where
  "register_tokens op =
     (if op \<in> set [''ADD'', ''SUB'', ''AND'', ''OR'', ''SLT'', ''MULT'', ''SLL''] then 3
      else if op \<in> set [''ADDI'', ''SLTI'', ''LW'', ''SW''] then 2
      else if op = ''PRINT'' then 1
      else 0)"

text \<open>A caller's sequence of calls on one simulator object.\<close>

datatype call = CallLoad string | CallStep

fun run :: "call list \<Rightarrow> sim \<Rightarrow> sim" where
  "run [] s = s"
| "run (CallLoad t # cs) s = run cs (loadProgram t s)"
| "run (CallStep # cs) s = run cs (snd (step s))"

fun run_script :: "call list \<Rightarrow> sim \<Rightarrow> sim" where
  "run_script [] s = s"
| "run_script (CallLoad t # cs) s = run_script cs (loadProgram_script t s)"
| "run_script (CallStep # cs) s = run_script cs (snd (step_script s))"

text \<open>The core machine state the two variants are compared on.\<close>

definition core_state :: "sim \<Rightarrow> nat \<times> bool \<times> 32 word list \<times> (jsnum \<rightharpoonup> jsval)" where
  "core_state s = (pc s, halted s, regs s, dataMemory s)"

text \<open>Two simulator states that hold the same core machine state and the same program:
  the instruction lists agree on addresses and texts. The display strings and the traces may
  differ.\<close>

definition same_machine :: "sim \<Rightarrow> sim \<Rightarrow> bool" where
  "same_machine s t =
     (core_state s = core_state t
      \<and> map addr (instrMemory s) = map addr (instrMemory t)
      \<and> map instr_text (instrMemory s) = map instr_text (instrMemory t))"

text \<open>The loader as the specification words it: the accepted lines are the trimmed lines
  that are neither empty nor comments, in order; the \<open>k\<close>-th accepted line gets address
  \<open>4 * k\<close>.\<close>

definition spec_accepted_lines :: "string \<Rightarrow> string list" where
  "spec_accepted_lines text0 =
     filter (\<lambda>l. l \<noteq> [] \<and> \<not> startsWith l (CHR ''#''))
       (map trim (split_char (CHR 0x0A) [] text0))"

definition spec_records :: "string \<Rightarrow> instr list" where
  "spec_records text0 =
     map (\<lambda>(k, l). \<lparr>addr = 4 * k, instr_text = l, binary = generateFakeBinary l\<rparr>)
       (enumerate 0 (spec_accepted_lines text0))"

section \<open>Example machines\<close>

text \<open>States reached by loading and running small programs; the theorems below are exercised
  on them.\<close>

definition sll_machine :: sim where
  "sll_machine =
     snd (steps 2 (loadProgram ''ADDI x1, x0, 5\<newline>ADDI x2, x0, 33\<newline>SLL x3, x1, x2'' new_sim))"

definition nan_imm_machine :: sim where
  "nan_imm_machine = loadProgram ''ADDI x1, x0, abc'' new_sim"

definition mult_machine :: sim where
  "mult_machine =
     snd (steps 1 (loadProgram ''ADDI x1, x0, 2147483647\<newline>MULT x2, x1, x1'' new_sim))"

definition out_of_range_machine :: sim where
  "out_of_range_machine =
     snd (steps 1 (loadProgram ''ADDI x1, x0, 5\<newline>ADD x99, x1, x1'' new_sim))"

definition round_trip_machine :: sim where
  "round_trip_machine =
     snd (steps 2 (loadProgram
       ''ADDI x1, x0, 99\<newline>ADDI x2, x0, 0\<newline>SW x1, x2, 4\<newline>LW x3, x2, 4'' new_sim))"

definition write_zero_machine :: sim where
  "write_zero_machine =
     snd (steps 1 (loadProgram ''ADDI x1, x0, 7\<newline>ADD x0, x1, x1'' new_sim))"

definition missing_token_machine :: sim where
  "missing_token_machine = loadProgram ''ADD x99'' new_sim"

definition out_of_range_source_machine :: sim where
  "out_of_range_source_machine =
     snd (steps 2 (loadProgram
       ''ADDI x1, x0, 5\<newline>ADDI x2, x0, 9\<newline>ADD x2, x99, x1'' new_sim))"

section \<open>Basic facts\<close>

lemma split_ws_from_not_Nil: "split_ws_from b cur s \<noteq> []"
  by (induction s arbitrary: b cur) auto

lemma decode_not_Nil: "decode t \<noteq> []"
  by (simp add: decode_def split_ws_def split_ws_from_not_Nil)

lemma nth_opt_Cons_0 [simp]: "nth_opt (x # xs) 0 = Some x"
  by (simp add: nth_opt_def)

lemma fetch_decodeD:
  assumes "fetch_decode s = Some (ci, op, parts)"
  obtains p0 ps where "\<not> halted s" and "find (\<lambda>i. addr i = pc s) (instrMemory s) = Some ci"
    and "decode (instr_text ci) = p0 # ps" and "parts = p0 # ps" and "op = toUpperCase p0"
proof -
  from assms have h: "\<not> halted s"
    by (simp add: fetch_decode_def split: if_splits)
  with assms obtain a where f: "find (\<lambda>i. addr i = pc s) (instrMemory s) = Some a"
    by (cases "find (\<lambda>i. addr i = pc s) (instrMemory s)") (simp_all add: fetch_decode_def)
  with assms h have eq:
    "(case decode (instr_text a) of [] \<Rightarrow> None
      | p0 # ps \<Rightarrow> Some (a, toUpperCase p0, p0 # ps)) = Some (ci, op, parts)"
    by (simp add: fetch_decode_def)
  show ?thesis
  proof (cases "decode (instr_text a)")
    case Nil
    with eq show ?thesis by simp
  next
    case (Cons p0 ps)
    with eq have "a = ci" and "op = toUpperCase p0" and "parts = p0 # ps"
      by simp_all
    with Cons h f show ?thesis
      by (intro that [of p0 ps]) simp_all
  qed
qed

lemma fetch_decode_None:
  "fetch_decode s = None \<longleftrightarrow> halted s \<or> find (\<lambda>i. addr i = pc s) (instrMemory s) = None"
  using decode_not_Nil
  by (auto simp: fetch_decode_def split: option.splits list.splits)

text \<open>A step is decided by the fetch: either nothing is fetched and the step returns false,
  or the \<open>try\<close> block runs on the fetched tokens.\<close>

lemma step_fetched:
  assumes "fetch_decode s = Some (ci, op, parts)"
  shows "step s =
     (case execute op parts (regs s) (dataMemory s) of
        Inl e \<Rightarrow> (ReturnFalse, s\<lparr>logs := logs s @ [LogError (pc s) e], halted := True\<rparr>)
      | Inr (rg, mem, an) \<Rightarrow>
          (Executed (binary ci),
           s\<lparr>regs := rg, dataMemory := mem,
             logs := logs s @ [LogStep (pc s) (instr_text ci) an], pc := pc s + 4\<rparr>))"
proof -
  from assms obtain p0 ps where "\<not> halted s"
    and "find (\<lambda>i. addr i = pc s) (instrMemory s) = Some ci"
    and "decode (instr_text ci) = p0 # ps" and "parts = p0 # ps" and "op = toUpperCase p0"
    by (rule fetch_decodeD)
  then show ?thesis by (simp add: step_def)
qed

lemma step_script_fetched:
  assumes "fetch_decode s = Some (ci, op, parts)"
  shows "step_script s =
     (case execute_script op parts (regs s) (dataMemory s) of
        Inl e \<Rightarrow> (ReturnFalse, s\<lparr>logs := logs s @ [LogError (pc s) e], halted := True\<rparr>)
      | Inr (rg, mem, an) \<Rightarrow>
          (Executed (binary ci),
           s\<lparr>regs := rg, dataMemory := mem,
             logs := logs s @ [LogStep (pc s) (instr_text ci) an], pc := pc s + 4\<rparr>))"
proof -
  from assms obtain p0 ps where "\<not> halted s"
    and "find (\<lambda>i. addr i = pc s) (instrMemory s) = Some ci"
    and "decode (instr_text ci) = p0 # ps" and "parts = p0 # ps" and "op = toUpperCase p0"
    by (rule fetch_decodeD)
  then show ?thesis by (simp add: step_script_def)
qed

lemma step_not_fetched:
  assumes "fetch_decode s = None"
  shows "step s =
    (ReturnFalse, if halted s then s else s\<lparr>halted := True, logs := logs s @ [LogEnd]\<rparr>)"
  using assms by (auto simp: fetch_decode_None step_def)

lemma step_script_not_fetched:
  assumes "fetch_decode s = None"
  shows "step_script s =
    (ReturnFalse, if halted s then s else s\<lparr>halted := True, logs := logs s @ [LogEnd]\<rparr>)"
  using assms by (auto simp: fetch_decode_None step_script_def)

lemma execute_unknown:
  "op \<notin> set known_mnemonics \<Longrightarrow> execute op parts rg mem = Inr (rg, mem, NoAnnot)"
  by (simp add: execute_def known_mnemonics_def)

lemma execute_script_unknown:
  "op \<notin> set known_mnemonics \<Longrightarrow> execute_script op parts rg mem = Inr (rg, mem, NoAnnot)"
  by (simp add: execute_script_def known_mnemonics_def)

lemma execute_rtype:
  assumes "op \<in> set [''ADD'', ''SUB'', ''AND'', ''OR'', ''SLT'', ''MULT'', ''SLL'']"
    and "getRegIndex (nth_opt parts 1) = Inr rd"
    and "getRegIndex (nth_opt parts 2) = Inr rs1"
    and "getRegIndex (nth_opt parts 3) = Inr rs2"
  shows "execute op parts rg mem =
    Inr (write_back rd (alu op (reg_read rg rs1) (reg_read rg rs2)) rg, mem, NoAnnot)"
  using assms by (simp add: execute_def then_do_def)

lemma alu_script_eq: "alu_script op v1 v2 = alu op v1 v2"
  by (simp add: alu_script_def alu_def)

lemma alu_imm_script_eq: "alu_imm_script op v1 imm = alu_imm op v1 imm"
  by (simp add: alu_imm_script_def alu_imm_def)

lemma execute_script_rtype:
  assumes "op \<in> set [''ADD'', ''SUB'', ''AND'', ''OR'', ''SLT'', ''MULT'', ''SLL'']"
    and "getRegIndex (nth_opt parts 1) = Inr rd"
    and "getRegIndex (nth_opt parts 2) = Inr rs1"
    and "getRegIndex (nth_opt parts 3) = Inr rs2"
  shows "execute_script op parts rg mem =
    Inr (write_back rd (alu op (reg_read rg rs1) (reg_read rg rs2)) rg, mem, NoAnnot)"
  using assms by (auto simp add: execute_script_def then_do_def alu_script_eq)

lemma and_31_mod: "unat ((w :: 32 word) AND 31) = nat (sint w mod 32)"
proof -
  have "w AND 31 = take_bit 5 w"
    by (simp add: take_bit_eq_mask mask_eq_exp_minus_1)
  then have "unat (w AND 31) = take_bit 5 (unat w)"
    by (simp add: unsigned_take_bit_eq)
  moreover have "sint w mod 32 = take_bit 5 (sint w)"
    by (simp add: take_bit_eq_mod)
  moreover have "take_bit 5 (sint w) = take_bit 5 (uint w)"
    by (simp add: sint_uint take_bit_signed_take_bit)
  moreover have "nat (take_bit 5 (uint w)) = take_bit 5 (unat w)"
    by (simp add: nat_take_bit_eq)
  ultimately show ?thesis by simp
qed

lemma op_sll_eq: "op_sll (I32 v1) (I32 v2) = word_of_int (sint v1 * 2 ^ nat (sint v2 mod 32))"
  by (simp add: op_sll_def and_31_mod push_bit_eq_mult wi_hom_syms)

lemma nth_opt_absent: "\<not> k < length xs \<Longrightarrow> nth_opt xs k = None"
  by (simp add: nth_opt_def)

lemma getRegIndex_absent:
  "\<not> k < length parts \<Longrightarrow> getRegIndex (nth_opt parts k) = Inl (TypeError ''replace'')"
  by (simp add: nth_opt_def getRegIndex_def)

lemma getRegIndex_present:
  "k < length parts \<Longrightarrow> \<exists>idx. getRegIndex (nth_opt parts k) = Inr idx"
  by (simp add: nth_opt_def getRegIndex_def Let_def)

lemma then_do_Inr [simp]: "then_do (Inr x) f = f x"
  by (simp add: then_do_def)

lemma then_do_Inl [simp]: "then_do (Inl e) f = Inl e"
  by (simp add: then_do_def)

lemma execute_itype:
  assumes "op \<in> set [''ADDI'', ''SLTI'']"
    and "getRegIndex (nth_opt parts 1) = Inr rd"
    and "getRegIndex (nth_opt parts 2) = Inr rs1"
  shows "execute op parts rg mem =
    Inr (write_back rd (alu_imm op (reg_read rg rs1) (parseInt_arg (nth_opt parts 3))) rg,
         mem, NoAnnot)"
  using assms by (auto simp add: execute_def)

lemma execute_lw:
  assumes "getRegIndex (nth_opt parts 1) = Inr rd"
    and "getRegIndex (nth_opt parts 2) = Inr rs1"
  shows "execute ''LW'' parts rg mem =
    Inr (write_back rd
           (mem_read mem (js_add (to_number (reg_read rg rs1)) (parseInt_arg (nth_opt parts 3)))) rg,
         mem,
         Leu (mem_read mem (js_add (to_number (reg_read rg rs1)) (parseInt_arg (nth_opt parts 3))))
             (js_add (to_number (reg_read rg rs1)) (parseInt_arg (nth_opt parts 3))))"
  using assms by (simp add: execute_def Let_def)

lemma execute_sw:
  assumes "getRegIndex (nth_opt parts 1) = Inr rs2"
    and "getRegIndex (nth_opt parts 2) = Inr rs1"
  shows "execute ''SW'' parts rg mem =
    Inr (rg,
         mem(js_add (to_number (reg_read rg rs1)) (parseInt_arg (nth_opt parts 3))
               \<mapsto> reg_read rg rs2),
         Salvou (reg_read rg rs2)
                (js_add (to_number (reg_read rg rs1)) (parseInt_arg (nth_opt parts 3))))"
  using assms by (simp add: execute_def Let_def)

lemma execute_print:
  assumes "getRegIndex (nth_opt parts 1) = Inr reg"
  shows "execute ''PRINT'' parts rg mem = Inr (rg, mem, Saida (reg_read rg reg))"
  using assms by (simp add: execute_def)

text \<open>The \<open>try\<close> block throws exactly when a register token its branch reads is missing,
  and then the exception is the TypeError of \<open>getRegIndex\<close>.\<close>

lemma execute_ok:
  assumes "register_tokens op < length parts"
  shows "\<exists>rg' mem' an. execute op parts rg mem = Inr (rg', mem', an)"
proof -
  consider (r) "op \<in> set [''ADD'', ''SUB'', ''AND'', ''OR'', ''SLT'', ''MULT'', ''SLL'']"
    | (i) "op \<in> set [''ADDI'', ''SLTI'']" | (lw) "op = ''LW''" | (sw) "op = ''SW''"
    | (pr) "op = ''PRINT''" | (un) "op \<notin> set known_mnemonics"
    by (auto simp: known_mnemonics_def)
  then show ?thesis
  proof cases
    case r
    with assms have "3 < length parts" by (simp add: register_tokens_def)
    then obtain rd rs1 rs2 where "getRegIndex (nth_opt parts 1) = Inr rd"
      and "getRegIndex (nth_opt parts 2) = Inr rs1" and "getRegIndex (nth_opt parts 3) = Inr rs2"
      using getRegIndex_present [of 1 parts] getRegIndex_present [of 2 parts]
        getRegIndex_present [of 3 parts] by auto
    with r show ?thesis by (simp add: execute_rtype)
  next
    case i
    with assms have "2 < length parts" by (auto simp add: register_tokens_def)
    then obtain rd rs1 where "getRegIndex (nth_opt parts 1) = Inr rd"
      and "getRegIndex (nth_opt parts 2) = Inr rs1"
      using getRegIndex_present [of 1 parts] getRegIndex_present [of 2 parts] by auto
    with i show ?thesis by (simp add: execute_itype)
  next
    case lw
    with assms have "2 < length parts" by (simp add: register_tokens_def)
    then obtain rd rs1 where "getRegIndex (nth_opt parts 1) = Inr rd"
      and "getRegIndex (nth_opt parts 2) = Inr rs1"
      using getRegIndex_present [of 1 parts] getRegIndex_present [of 2 parts] by auto
    with lw show ?thesis by (simp add: execute_lw)
  next
    case sw
    with assms have "2 < length parts" by (simp add: register_tokens_def)
    then obtain rd rs1 where "getRegIndex (nth_opt parts 1) = Inr rd"
      and "getRegIndex (nth_opt parts 2) = Inr rs1"
      using getRegIndex_present [of 1 parts] getRegIndex_present [of 2 parts] by auto
    with sw show ?thesis by (simp add: execute_sw)
  next
    case pr
    with assms have "1 < length parts" by (simp add: register_tokens_def)
    then obtain reg where "getRegIndex (nth_opt parts 1) = Inr reg"
      using getRegIndex_present [of 1 parts] by auto
    with pr show ?thesis by (simp add: execute_print)
  next
    case un
    then show ?thesis by (simp add: execute_unknown)
  qed
qed

lemma execute_fault:
  assumes "\<not> register_tokens op < length parts" and "parts \<noteq> []"
  shows "execute op parts rg mem = Inl (TypeError ''replace'')"
proof -
  have *: "then_do (getRegIndex (nth_opt parts (Suc 0))) (\<lambda>a. then_do (getRegIndex (nth_opt parts 2))
            (\<lambda>b. then_do (getRegIndex (nth_opt parts 3)) (f a b))) = Inl (TypeError ''replace'')"
    if "\<not> 3 < length parts" for f :: "jsnum \<Rightarrow> jsnum \<Rightarrow> jsnum \<Rightarrow> js_error + 'z"
    using that getRegIndex_present [of 1 parts] getRegIndex_present [of 2 parts]
    by (cases "1 < length parts"; cases "2 < length parts") (auto simp: getRegIndex_absent)
  have **: "then_do (getRegIndex (nth_opt parts (Suc 0))) (\<lambda>a. then_do (getRegIndex (nth_opt parts 2))
            (g a)) = Inl (TypeError ''replace'')"
    if "\<not> 2 < length parts" for g :: "jsnum \<Rightarrow> jsnum \<Rightarrow> js_error + 'z"
    using that getRegIndex_present [of 1 parts]
    by (cases "1 < length parts") (auto simp: getRegIndex_absent)
  consider (r) "op \<in> set [''ADD'', ''SUB'', ''AND'', ''OR'', ''SLT'', ''MULT'', ''SLL'']"
    | (i) "op \<in> set [''ADDI'', ''SLTI'']" | (lw) "op = ''LW''" | (sw) "op = ''SW''"
    | (pr) "op = ''PRINT''" | (un) "op \<notin> set known_mnemonics"
    by (auto simp: known_mnemonics_def)
  then show ?thesis
  proof cases
    case r
    with assms(1) have "\<not> 3 < length parts" by (simp add: register_tokens_def)
    with r show ?thesis by (simp add: execute_def * del: set_simps)
  next
    case i
    with assms(1) have "\<not> 2 < length parts" by (auto simp add: register_tokens_def)
    moreover from i have "op \<notin> set [''ADD'', ''SUB'', ''AND'', ''OR'', ''SLT'', ''MULT'', ''SLL'']"
      by auto
    ultimately show ?thesis using i by (simp add: execute_def ** del: set_simps)
  next
    case lw
    with assms(1) have "\<not> 2 < length parts" by (simp add: register_tokens_def)
    with lw show ?thesis by (simp add: execute_def **)
  next
    case sw
    with assms(1) have "\<not> 2 < length parts" by (simp add: register_tokens_def)
    with sw show ?thesis by (simp add: execute_def **)
  next
    case pr
    with assms(1) have "\<not> 1 < length parts" by (simp add: register_tokens_def)
    with pr show ?thesis by (simp add: execute_def getRegIndex_absent)
  next
    case un
    with assms show ?thesis by (simp add: register_tokens_def known_mnemonics_def)
  qed
qed


text \<open>No exception leaves \<open>step\<close>: it returns false or the success object.\<close>

lemma step_cases:
  "(fetch_decode s = None \<and>
      step s = (ReturnFalse,
                if halted s then s else s\<lparr>halted := True, logs := logs s @ [LogEnd]\<rparr>))
   \<or> (\<exists>ci op parts. fetch_decode s = Some (ci, op, parts) \<and> parts \<noteq> [] \<and>
        \<not> register_tokens op < length parts \<and>
        step s = (ReturnFalse,
                  s\<lparr>logs := logs s @ [LogError (pc s) (TypeError ''replace'')], halted := True\<rparr>))
   \<or> (\<exists>ci op parts rg mem an. fetch_decode s = Some (ci, op, parts) \<and>
        register_tokens op < length parts \<and>
        execute op parts (regs s) (dataMemory s) = Inr (rg, mem, an) \<and>
        step s = (Executed (binary ci),
                  s\<lparr>regs := rg, dataMemory := mem,
                    logs := logs s @ [LogStep (pc s) (instr_text ci) an], pc := pc s + 4\<rparr>))"
proof (cases "fetch_decode s")
  case None
  then show ?thesis by (simp add: step_not_fetched)
next
  case (Some t)
  obtain ci op parts where t: "t = (ci, op, parts)" by (cases t)
  with Some have f: "fetch_decode s = Some (ci, op, parts)" by simp
  then have ne: "parts \<noteq> []" by (auto elim: fetch_decodeD)
  show ?thesis
  proof (cases "register_tokens op < length parts")
    case True
    then obtain rg mem an where "execute op parts (regs s) (dataMemory s) = Inr (rg, mem, an)"
      using execute_ok by blast
    with f True show ?thesis by (simp add: step_fetched)
  next
    case False
    with ne have "execute op parts (regs s) (dataMemory s) = Inl (TypeError ''replace'')"
      by (simp add: execute_fault)
    with f False ne show ?thesis by (simp add: step_fetched)
  qed
qed


lemma then_do_eq_Inr: "then_do m f = Inr y \<Longrightarrow> \<exists>x. m = Inr x \<and> f x = Inr y"
  by (cases m) simp_all

text \<open>What the \<open>try\<close> block can change: the registers only by the write-back to the index of
  \<open>parts[1]\<close>, the memory only in the SW branch.\<close>

lemma execute_effect:
  assumes "execute op parts rg mem = Inr (rg', mem', an)"
  shows "(rg' = rg \<or> (\<exists>rd v. getRegIndex (nth_opt parts 1) = Inr rd \<and> rg' = write_back rd v rg))
       \<and> (mem' = mem \<or> op = ''SW'')"
proof -
  consider (r) "op \<in> set [''ADD'', ''SUB'', ''AND'', ''OR'', ''SLT'', ''MULT'', ''SLL'']"
    | (i) "op \<in> set [''ADDI'', ''SLTI'']" | (lw) "op = ''LW''" | (sw) "op = ''SW''"
    | (pr) "op = ''PRINT''" | (un) "op \<notin> set known_mnemonics"
    by (auto simp: known_mnemonics_def)
  then show ?thesis
  proof cases
    case r
    with assms have "then_do (getRegIndex (nth_opt parts 1)) (\<lambda>rd.
        then_do (getRegIndex (nth_opt parts 2)) (\<lambda>rs1.
        then_do (getRegIndex (nth_opt parts 3)) (\<lambda>rs2.
          Inr (write_back rd (alu op (reg_read rg rs1) (reg_read rg rs2)) rg, mem, NoAnnot))))
        = Inr (rg', mem', an)"
      by (simp add: execute_def del: set_simps)
    then show ?thesis
      by (auto dest!: then_do_eq_Inr)
  next
    case i
    then have "op \<notin> set [''ADD'', ''SUB'', ''AND'', ''OR'', ''SLT'', ''MULT'', ''SLL'']"
      by auto
    with i assms have "then_do (getRegIndex (nth_opt parts 1)) (\<lambda>rd.
        then_do (getRegIndex (nth_opt parts 2)) (\<lambda>rs1.
          Inr (write_back rd (alu_imm op (reg_read rg rs1) (parseInt_arg (nth_opt parts 3))) rg,
               mem, NoAnnot)))
        = Inr (rg', mem', an)"
      by (simp add: execute_def del: set_simps)
    then show ?thesis
      by (auto dest!: then_do_eq_Inr)
  next
    case lw
    with assms show ?thesis
      by (auto simp: execute_def Let_def dest!: then_do_eq_Inr)
  next
    case sw
    with assms show ?thesis
      by (auto simp: execute_def Let_def dest!: then_do_eq_Inr)
  next
    case pr
    with assms show ?thesis
      by (auto simp: execute_def Let_def dest!: then_do_eq_Inr)
  next
    case un
    with assms show ?thesis by (simp add: execute_unknown)
  qed
qed

lemma js_add_NaN_right [simp]: "js_add x NaN = NaN"
  by (cases x) simp_all

lemma js_lt_NaN_right [simp]: "js_lt x NaN = False"
  by (cases x) simp_all

lemma alu_imm_NaN: "op \<in> set [''ADDI'', ''SLTI''] \<Longrightarrow> alu_imm op v NaN = 0"
  by (auto simp: alu_imm_def op_addi_def op_slti_def)

lemma reg_read_out_of_range:
  "length rg = 32 \<Longrightarrow> out_of_range idx \<Longrightarrow> reg_read rg idx = Undefined"
  by (auto simp: reg_read_def out_of_range_def split: jsnum.splits)

lemma write_back_out_of_range:
  "length rg = 32 \<Longrightarrow> out_of_range idx \<Longrightarrow> write_back idx v rg = rg"
  by (auto simp: write_back_def reg_write_def out_of_range_def split: jsnum.splits)

lemma alu_Undefined_left:
  "alu op Undefined v = (if op = ''OR'' then to_int32 (to_number v) else 0)"
  by (simp add: alu_def op_add_def op_sub_def js_sub_def op_mult_def js_mul_def op_and_def
      op_or_def op_slt_def op_sll_def)

lemma js_neg_eq_NaN [simp]: "js_neg x = NaN \<longleftrightarrow> x = NaN"
  by (cases x) simp_all

lemma alu_Undefined_right:
  "alu op v Undefined =
     (if op = ''OR'' \<or> op = ''SLL'' then to_int32 (to_number v) else 0)"
  by (cases v) (simp_all add: alu_def op_add_def op_sub_def js_sub_def op_mult_def js_mul_def
      op_and_def op_or_def op_slt_def op_sll_def)

lemma alu_imm_Undefined: "alu_imm op Undefined imm = 0"
  by (simp add: alu_imm_def op_addi_def op_slti_def)

section \<open>Unrecognised mnemonics\<close>

text \<open>C5: when the fetched instruction's mnemonic is none of ADD, SUB, AND, OR, SLT, MULT, SLL,
  ADDI, SLTI, LW, SW, PRINT, the step returns the success result and changes nothing but the
  trace, which gains the generic line, and the program counter, which advances by 4: registers,
  data memory and \<open>halted\<close> (false, since an instruction was fetched) stay as they were. This
  holds in both variants.\<close>

theorem unknown_mnemonic_is_noop:
  assumes "fetch_decode s = Some (ci, op, parts)" and "op \<notin> set known_mnemonics"
  shows "step s = (Executed (binary ci),
                   s\<lparr>logs := logs s @ [LogStep (pc s) (instr_text ci) NoAnnot], pc := pc s + 4\<rparr>)
       \<and> step_script s = (Executed (binary ci),
                   s\<lparr>logs := logs s @ [LogStep (pc s) (instr_text ci) NoAnnot], pc := pc s + 4\<rparr>)
       \<and> \<not> halted s"
proof -
  from assms(1) have "\<not> halted s"
    by (auto elim: fetch_decodeD)
  with assms show ?thesis
    by (simp add: step_fetched step_script_fetched execute_unknown execute_script_unknown)
qed

theorem unknown_mnemonic_is_noop_witness:
  "fetch_decode (loadProgram ''NOP x1, x2'' new_sim)
     = Some (\<lparr>addr = 0, instr_text = ''NOP x1, x2'',
              binary = ''??????? ????? ????? ??? 0000000''\<rparr>, ''NOP'', [''NOP'', ''x1'', ''x2''])
   \<and> ''NOP'' \<notin> set known_mnemonics
   \<and> step (loadProgram ''NOP x1, x2'' new_sim) =
      (Executed ''??????? ????? ????? ??? 0000000'',
       (loadProgram ''NOP x1, x2'' new_sim)
         \<lparr>logs := logs (loadProgram ''NOP x1, x2'' new_sim) @ [LogStep 0 ''NOP x1, x2'' NoAnnot],
          pc := 4\<rparr>)
   \<and> \<not> halted (loadProgram ''NOP x1, x2'' new_sim)"
proof -
  have f: "fetch_decode (loadProgram ''NOP x1, x2'' new_sim)
     = Some (\<lparr>addr = 0, instr_text = ''NOP x1, x2'',
              binary = ''??????? ????? ????? ??? 0000000''\<rparr>, ''NOP'', [''NOP'', ''x1'', ''x2''])"
    by code_simp
  have k: "''NOP'' \<notin> set known_mnemonics"
    by code_simp
  have p: "pc (loadProgram ''NOP x1, x2'' new_sim) = 0"
    by code_simp
  from unknown_mnemonic_is_noop [OF f k] f k p show ?thesis by simp
qed

section \<open>Shift left\<close>

text \<open>C8: SLL writes to \<open>rd\<close> the value of \<open>rs1\<close> shifted left by the value of \<open>rs2\<close>
  modulo 32, truncated to 32 bits; the modulus is the mathematical one, so a shift count of 32
  or more, or a negative one, is reduced to the range 0 to 31. This holds in both variants.\<close>

theorem sll_shifts_modulo_32:
  assumes "fetch_decode s = Some (ci, ''SLL'', parts)"
    and "getRegIndex (nth_opt parts 1) = Inr rd"
    and "getRegIndex (nth_opt parts 2) = Inr rs1"
    and "getRegIndex (nth_opt parts 3) = Inr rs2"
    and "reg_read (regs s) rs1 = I32 v1"
    and "reg_read (regs s) rs2 = I32 v2"
  shows "regs (snd (step s)) =
           write_back rd (word_of_int (sint v1 * 2 ^ nat (sint v2 mod 32))) (regs s)
       \<and> regs (snd (step_script s)) =
           write_back rd (word_of_int (sint v1 * 2 ^ nat (sint v2 mod 32))) (regs s)"
  using assms
  by (simp add: step_fetched step_script_fetched execute_rtype execute_script_rtype alu_def op_sll_eq)


theorem sll_shifts_modulo_32_witness:
  "fetch_decode sll_machine =
     Some (\<lparr>addr = 8, instr_text = ''SLL x3, x1, x2'',
             binary = ''??????? ????? ????? ??? 0000000''\<rparr>, ''SLL'', [''SLL'', ''x3'', ''x1'', ''x2''])
   \<and> getRegIndex (nth_opt [''SLL'', ''x3'', ''x1'', ''x2''] 1) = Inr (Fin 3)
   \<and> getRegIndex (nth_opt [''SLL'', ''x3'', ''x1'', ''x2''] 2) = Inr (Fin 1)
   \<and> getRegIndex (nth_opt [''SLL'', ''x3'', ''x1'', ''x2''] 3) = Inr (Fin 2)
   \<and> reg_read (regs sll_machine) (Fin 1) = I32 5
   \<and> reg_read (regs sll_machine) (Fin 2) = I32 33
   \<and> regs (snd (step sll_machine)) = write_back (Fin 3) 10 (regs sll_machine)
   \<and> regs (snd (step_script sll_machine)) = write_back (Fin 3) 10 (regs sll_machine)"
proof -
  have f: "fetch_decode sll_machine =
     Some (\<lparr>addr = 8, instr_text = ''SLL x3, x1, x2'',
             binary = ''??????? ????? ????? ??? 0000000''\<rparr>, ''SLL'', [''SLL'', ''x3'', ''x1'', ''x2''])"
    by code_simp
  have r1: "getRegIndex (nth_opt [''SLL'', ''x3'', ''x1'', ''x2''] 1) = Inr (Fin 3)"
    by code_simp
  have r2: "getRegIndex (nth_opt [''SLL'', ''x3'', ''x1'', ''x2''] 2) = Inr (Fin 1)"
    by code_simp
  have r3: "getRegIndex (nth_opt [''SLL'', ''x3'', ''x1'', ''x2''] 3) = Inr (Fin 2)"
    by code_simp
  have v1: "reg_read (regs sll_machine) (Fin 1) = I32 5"
    by code_simp
  have v2: "reg_read (regs sll_machine) (Fin 2) = I32 33"
    by code_simp
  from sll_shifts_modulo_32 [OF f r1 r2 r3 v1 v2] f r1 r2 r3 v1 v2 show ?thesis
    by simp
qed

section \<open>Non-numeric immediates\<close>

text \<open>C1, as stated, fails: \<open>parseInt\<close> of a token without digits is NaN and throws nothing.
  The program \<open>ADDI x1, x0, abc\<close> executes: the step returns the success object, \<open>halted\<close>
  stays false and the trace gains the ordinary line, not an error line.\<close>

theorem nonnumeric_immediate_counterexample:
  "parseInt_arg (nth_opt (decode ''ADDI x1, x0, abc'') 3) = NaN
   \<and> fst (step nan_imm_machine) = Executed ''??????? ????? ????? ??? 0010011''
   \<and> halted (snd (step nan_imm_machine)) = False
   \<and> logs (snd (step nan_imm_machine)) = [LogLoaded, LogStep 0 ''ADDI x1, x0, abc'' NoAnnot]"
  by code_simp

text \<open>C1, amended: a step on an ADDI or SLTI whose immediate token holds no parseable integer
  does not fault when both register tokens are present. It returns the success object, leaves
  \<open>halted\<close> false, advances the program counter by 4, appends the ordinary trace line and
  writes 0 to \<open>rd\<close> (subject to the write-back guard on \<open>rd\<close>). The step faults -- it returns
  false, sets \<open>halted\<close> and appends an error trace line, with no exception leaving \<open>step\<close> --
  when a register token is missing.\<close>

theorem nonnumeric_immediate_executes:
  assumes "fetch_decode s = Some (ci, op, parts)"
    and "op \<in> set [''ADDI'', ''SLTI'']"
    and "parseInt_arg (nth_opt parts 3) = NaN"
  shows "(2 < length parts \<longrightarrow>
           (\<exists>rd. getRegIndex (nth_opt parts 1) = Inr rd \<and>
              step s = (Executed (binary ci),
                        s\<lparr>regs := write_back rd 0 (regs s),
                          logs := logs s @ [LogStep (pc s) (instr_text ci) NoAnnot],
                          pc := pc s + 4\<rparr>)))
       \<and> (\<not> 2 < length parts \<longrightarrow>
           step s = (ReturnFalse,
                     s\<lparr>logs := logs s @ [LogError (pc s) (TypeError ''replace'')],
                       halted := True\<rparr>))"
proof (intro conjI impI)
  assume "2 < length parts"
  then obtain rd rs1 where rd: "getRegIndex (nth_opt parts 1) = Inr rd"
    and rs1: "getRegIndex (nth_opt parts 2) = Inr rs1"
    using getRegIndex_present [of 1 parts] getRegIndex_present [of 2 parts] by auto
  with assms have "execute op parts (regs s) (dataMemory s) =
      Inr (write_back rd 0 (regs s), dataMemory s, NoAnnot)"
    by (simp add: execute_itype alu_imm_NaN del: set_simps)
  with assms(1) rd show "\<exists>rd. getRegIndex (nth_opt parts 1) = Inr rd \<and>
              step s = (Executed (binary ci),
                        s\<lparr>regs := write_back rd 0 (regs s),
                          logs := logs s @ [LogStep (pc s) (instr_text ci) NoAnnot],
                          pc := pc s + 4\<rparr>)"
    by (simp add: step_fetched)
next
  assume "\<not> 2 < length parts"
  moreover from assms(2) have "register_tokens op = 2"
    by (auto simp: register_tokens_def)
  moreover from assms(1) have "parts \<noteq> []"
    by (auto elim: fetch_decodeD)
  ultimately have "execute op parts (regs s) (dataMemory s) = Inl (TypeError ''replace'')"
    by (simp add: execute_fault)
  with assms(1) show "step s = (ReturnFalse,
                     s\<lparr>logs := logs s @ [LogError (pc s) (TypeError ''replace'')],
                       halted := True\<rparr>)"
    by (simp add: step_fetched)
qed

theorem nonnumeric_immediate_executes_witness:
  "fetch_decode nan_imm_machine =
     Some (\<lparr>addr = 0, instr_text = ''ADDI x1, x0, abc'',
             binary = ''??????? ????? ????? ??? 0010011''\<rparr>,
           ''ADDI'', [''ADDI'', ''x1'', ''x0'', ''abc''])
   \<and> ''ADDI'' \<in> set [''ADDI'', ''SLTI'']
   \<and> parseInt_arg (nth_opt [''ADDI'', ''x1'', ''x0'', ''abc''] 3) = NaN
   \<and> 2 < length [''ADDI'', ''x1'', ''x0'', ''abc'']
   \<and> (\<exists>rd. getRegIndex (nth_opt [''ADDI'', ''x1'', ''x0'', ''abc''] 1) = Inr rd \<and>
         step nan_imm_machine =
           (Executed ''??????? ????? ????? ??? 0010011'',
            nan_imm_machine\<lparr>regs := write_back rd 0 (regs nan_imm_machine),
              logs := logs nan_imm_machine @ [LogStep (pc nan_imm_machine) ''ADDI x1, x0, abc'' NoAnnot],
              pc := pc nan_imm_machine + 4\<rparr>))"
proof -
  have f: "fetch_decode nan_imm_machine =
     Some (\<lparr>addr = 0, instr_text = ''ADDI x1, x0, abc'',
             binary = ''??????? ????? ????? ??? 0010011''\<rparr>,
           ''ADDI'', [''ADDI'', ''x1'', ''x0'', ''abc''])"
    by code_simp
  have m: "''ADDI'' \<in> set [''ADDI'', ''SLTI'']"
    by simp
  have n: "parseInt_arg (nth_opt [''ADDI'', ''x1'', ''x0'', ''abc''] 3) = NaN"
    by code_simp
  from nonnumeric_immediate_executes [OF f m n] f m n show ?thesis
    by simp
qed

section \<open>Arithmetic and wrap-around\<close>

lemma round_double_small: "\<bar>n\<bar> < 2 ^ 53 \<Longrightarrow> round_double n = Fin n"
  by (simp add: round_double_def)

lemma sint32_bounds: "- (2 ^ 31) \<le> sint (w :: 32 word) \<and> sint w < 2 ^ 31"
  using sint_ge [of w] sint_lt [of w] by simp

text \<open>ADD and SUB are exact: the sum of two 32-bit values is far below \<open>2^53\<close>, so the double
  addition does not round, and \<open>|0\<close> reduces it modulo \<open>2^32\<close>.\<close>

lemma op_add_exact: "op_add (I32 a) (I32 b) = word_of_int (sint a + sint b)"
proof -
  have "\<bar>sint a + sint b\<bar> < 2 ^ 53"
    using sint32_bounds [of a] sint32_bounds [of b] by (simp add: abs_less_iff)
  then show ?thesis by (simp add: op_add_def round_double_small)
qed

lemma op_sub_exact: "op_sub (I32 a) (I32 b) = word_of_int (sint a - sint b)"
proof -
  have "\<bar>sint a - sint b\<bar> < 2 ^ 53"
    using sint32_bounds [of a] sint32_bounds [of b] by (simp add: abs_less_iff)
  then show ?thesis by (simp add: op_sub_def js_sub_def round_double_small)
qed

lemma op_addi_exact:
  assumes "\<bar>imm\<bar> \<le> 2 ^ 52"
  shows "op_addi (I32 a) (Fin imm) = word_of_int (sint a + imm)"
proof -
  have "\<bar>sint a + imm\<bar> < 2 ^ 53"
    using sint32_bounds [of a] assms by (simp add: abs_less_iff abs_le_iff)
  then show ?thesis by (simp add: op_addi_def round_double_small)
qed

lemma op_mult_exact_small:
  assumes "\<bar>sint a * sint b\<bar> < 2 ^ 53"
  shows "op_mult (I32 a) (I32 b) = word_of_int (sint a * sint b)"
  using assms by (simp add: op_mult_def js_mul_def round_double_small)

text \<open>C2: the claim asks of MULT the true product modulo \<open>2^32\<close>. The code computes
  \<open>(v1 * v2) | 0\<close> on doubles: a product of \<open>2^53\<close> or more is rounded to 53 significant bits
  before \<open>|0\<close> takes its low 32 bits. After \<open>ADDI x1, x0, 2147483647\<close> the instruction
  \<open>MULT x2, x1, x1\<close> leaves 0 in \<open>x2\<close>, in both variants, while the product
  \<open>2147483647 * 2147483647\<close> is 1 modulo \<open>2^32\<close>.\<close>

theorem mult_loses_low_bits:
  "reg_read (regs mult_machine) (Fin 1) = I32 2147483647
   \<and> fetch_decode mult_machine =
       Some (\<lparr>addr = 4, instr_text = ''MULT x2, x1, x1'',
               binary = ''??????? ????? ????? ??? 0110011''\<rparr>,
             ''MULT'', [''MULT'', ''x2'', ''x1'', ''x1''])
   \<and> js_mul (Fin 2147483647) (Fin 2147483647) = Fin 4611686014132420608
   \<and> reg_read (regs (snd (step mult_machine))) (Fin 2) = I32 0
   \<and> reg_read (regs (snd (step_script mult_machine))) (Fin 2) = I32 0
   \<and> (word_of_int (2147483647 * 2147483647) :: 32 word) = 1"
  by code_simp

section \<open>Out-of-range register indices\<close>

text \<open>What a step does in each branch once the register tokens are resolved.\<close>

lemma step_rtype:
  assumes "fetch_decode s = Some (ci, op, parts)"
    and "op \<in> set [''ADD'', ''SUB'', ''AND'', ''OR'', ''SLT'', ''MULT'', ''SLL'']"
    and "getRegIndex (nth_opt parts 1) = Inr rd"
    and "getRegIndex (nth_opt parts 2) = Inr rs1"
    and "getRegIndex (nth_opt parts 3) = Inr rs2"
  shows "step s =
    (Executed (binary ci),
     s\<lparr>regs := write_back rd (alu op (reg_read (regs s) rs1) (reg_read (regs s) rs2)) (regs s),
       logs := logs s @ [LogStep (pc s) (instr_text ci) NoAnnot], pc := pc s + 4\<rparr>)"
  using assms by (simp add: step_fetched execute_rtype del: set_simps)

lemma step_itype:
  assumes "fetch_decode s = Some (ci, op, parts)"
    and "op \<in> set [''ADDI'', ''SLTI'']"
    and "getRegIndex (nth_opt parts 1) = Inr rd"
    and "getRegIndex (nth_opt parts 2) = Inr rs1"
  shows "step s =
    (Executed (binary ci),
     s\<lparr>regs := write_back rd
                 (alu_imm op (reg_read (regs s) rs1) (parseInt_arg (nth_opt parts 3))) (regs s),
       logs := logs s @ [LogStep (pc s) (instr_text ci) NoAnnot], pc := pc s + 4\<rparr>)"
  using assms by (simp add: step_fetched execute_itype del: set_simps)

lemma step_lw:
  assumes "fetch_decode s = Some (ci, ''LW'', parts)"
    and "getRegIndex (nth_opt parts 1) = Inr rd"
    and "getRegIndex (nth_opt parts 2) = Inr rs1"
    and "a = js_add (to_number (reg_read (regs s) rs1)) (parseInt_arg (nth_opt parts 3))"
  shows "step s =
    (Executed (binary ci),
     s\<lparr>regs := write_back rd (mem_read (dataMemory s) a) (regs s),
       logs := logs s @ [LogStep (pc s) (instr_text ci) (Leu (mem_read (dataMemory s) a) a)],
       pc := pc s + 4\<rparr>)"
  using assms by (simp add: step_fetched execute_lw)

lemma step_sw:
  assumes "fetch_decode s = Some (ci, ''SW'', parts)"
    and "getRegIndex (nth_opt parts 1) = Inr rs2"
    and "getRegIndex (nth_opt parts 2) = Inr rs1"
    and "a = js_add (to_number (reg_read (regs s) rs1)) (parseInt_arg (nth_opt parts 3))"
  shows "step s =
    (Executed (binary ci),
     s\<lparr>dataMemory := (dataMemory s)(a \<mapsto> reg_read (regs s) rs2),
       logs := logs s @ [LogStep (pc s) (instr_text ci) (Salvou (reg_read (regs s) rs2) a)],
       pc := pc s + 4\<rparr>)"
  using assms by (simp add: step_fetched execute_sw)

lemma step_print:
  assumes "fetch_decode s = Some (ci, ''PRINT'', parts)"
    and "getRegIndex (nth_opt parts 1) = Inr reg"
  shows "step s =
    (Executed (binary ci),
     s\<lparr>logs := logs s @ [LogStep (pc s) (instr_text ci) (Saida (reg_read (regs s) reg))],
       pc := pc s + 4\<rparr>)"
  using assms by (simp add: step_fetched execute_print)

text \<open>C9, as stated, fails: \<open>ADD x99\<close> has a register token that resolves to index 99, and
  the step faults -- it returns false and halts -- because the tokens for \<open>rs1\<close> and \<open>rs2\<close>
  are missing.\<close>

theorem out_of_range_register_counterexample:
  "getRegIndex (nth_opt (decode ''ADD x99'') 1) = Inr (Fin 99)
   \<and> out_of_range (Fin 99)
   \<and> fst (step missing_token_machine) = ReturnFalse
   \<and> halted (snd (step missing_token_machine)) = True
   \<and> logs (snd (step missing_token_machine)) = [LogLoaded, LogError 0 (TypeError ''replace'')]"
  by code_simp

text \<open>C9, amended: in a step whose branch finds every register token it reads, a register
  token that resolves to an index of 32 or more causes no fault. The step returns the success
  object, the program counter advances by 4 and the machine keeps running. When the index of
  \<open>parts[1]\<close> is out of range the write-back is ignored: the 32 registers are unchanged, and so
  is the data memory unless the instruction is a store. A source register out of range reads
  as \<open>undefined\<close>, and the step carries on with it: a register-register instruction writes 0
  to \<open>rd\<close>, except that OR writes the other operand and SLL with an out-of-range shift count
  writes \<open>rs1\<close> unshifted; ADDI and SLTI write 0; LW loads from the memory key NaN; SW stores
  \<open>undefined\<close>, or stores under the key NaN when the base is out of range; PRINT reports
  \<open>undefined\<close>.\<close>

theorem out_of_range_register_does_not_fault:
  assumes "fetch_decode s = Some (ci, op, parts)"
    and "length (regs s) = 32"
    and "register_tokens op < length parts"
  shows "is_executed (fst (step s)) \<and> pc (snd (step s)) = pc s + 4 \<and> \<not> halted (snd (step s))
       \<and> (\<forall>rd. getRegIndex (nth_opt parts 1) = Inr rd \<and> out_of_range rd \<longrightarrow>
             regs (snd (step s)) = regs s
             \<and> (op \<noteq> ''SW'' \<longrightarrow> dataMemory (snd (step s)) = dataMemory s))
       \<and> (\<forall>rd rs1 rs2.
             op \<in> set [''ADD'', ''SUB'', ''AND'', ''OR'', ''SLT'', ''MULT'', ''SLL'']
             \<and> getRegIndex (nth_opt parts 1) = Inr rd
             \<and> getRegIndex (nth_opt parts 2) = Inr rs1
             \<and> getRegIndex (nth_opt parts 3) = Inr rs2
             \<longrightarrow> (out_of_range rs1 \<longrightarrow>
                    regs (snd (step s)) =
                      write_back rd (if op = ''OR'' then to_int32 (to_number (reg_read (regs s) rs2))
                                     else 0) (regs s))
                \<and> (out_of_range rs2 \<longrightarrow>
                    regs (snd (step s)) =
                      write_back rd (if op = ''OR'' \<or> op = ''SLL''
                                     then to_int32 (to_number (reg_read (regs s) rs1))
                                     else 0) (regs s)))
       \<and> (\<forall>rd rs1.
             op \<in> set [''ADDI'', ''SLTI'']
             \<and> getRegIndex (nth_opt parts 1) = Inr rd
             \<and> getRegIndex (nth_opt parts 2) = Inr rs1 \<and> out_of_range rs1
             \<longrightarrow> regs (snd (step s)) = write_back rd 0 (regs s))
       \<and> (\<forall>rd rs1.
             op = ''LW''
             \<and> getRegIndex (nth_opt parts 1) = Inr rd
             \<and> getRegIndex (nth_opt parts 2) = Inr rs1 \<and> out_of_range rs1
             \<longrightarrow> regs (snd (step s)) = write_back rd (mem_read (dataMemory s) NaN) (regs s))
       \<and> (\<forall>rs2 rs1.
             op = ''SW''
             \<and> getRegIndex (nth_opt parts 1) = Inr rs2
             \<and> getRegIndex (nth_opt parts 2) = Inr rs1
             \<longrightarrow> (out_of_range rs2 \<longrightarrow>
                    dataMemory (snd (step s)) =
                      (dataMemory s)
                        (js_add (to_number (reg_read (regs s) rs1))
                           (parseInt_arg (nth_opt parts 3)) \<mapsto> Undefined))
                \<and> (out_of_range rs1 \<longrightarrow>
                    dataMemory (snd (step s)) = (dataMemory s)(NaN \<mapsto> reg_read (regs s) rs2)))
       \<and> (\<forall>reg.
             op = ''PRINT'' \<and> getRegIndex (nth_opt parts 1) = Inr reg \<and> out_of_range reg
             \<longrightarrow> logs (snd (step s)) = logs s @ [LogStep (pc s) (instr_text ci) (Saida Undefined)])"
proof -
  note f = assms(1) and len = assms(2)
  from assms(3) obtain rg mem an
    where ex: "execute op parts (regs s) (dataMemory s) = Inr (rg, mem, an)"
    using execute_ok by blast
  with f have st: "step s = (Executed (binary ci),
      s\<lparr>regs := rg, dataMemory := mem,
        logs := logs s @ [LogStep (pc s) (instr_text ci) an], pc := pc s + 4\<rparr>)"
    by (simp add: step_fetched)
  from f have run: "\<not> halted s"
    by (auto elim: fetch_decodeD)
  from ex have eff:
    "(rg = regs s \<or> (\<exists>rd v. getRegIndex (nth_opt parts 1) = Inr rd \<and> rg = write_back rd v (regs s)))
     \<and> (mem = dataMemory s \<or> op = ''SW'')"
    by (rule execute_effect)
  from st run have basic: "is_executed (fst (step s)) \<and> pc (snd (step s)) = pc s + 4
      \<and> \<not> halted (snd (step s))"
    by (simp add: is_executed_def)
  have dest: "\<forall>rd. getRegIndex (nth_opt parts 1) = Inr rd \<and> out_of_range rd \<longrightarrow>
             regs (snd (step s)) = regs s
             \<and> (op \<noteq> ''SW'' \<longrightarrow> dataMemory (snd (step s)) = dataMemory s)"
    using eff st len by (auto simp: write_back_out_of_range)
  have rtype: "(out_of_range rs1 \<longrightarrow>
          regs (snd (step s)) =
            write_back rd (if op = ''OR'' then to_int32 (to_number (reg_read (regs s) rs2))
                           else 0) (regs s))
      \<and> (out_of_range rs2 \<longrightarrow>
          regs (snd (step s)) =
            write_back rd (if op = ''OR'' \<or> op = ''SLL''
                           then to_int32 (to_number (reg_read (regs s) rs1))
                           else 0) (regs s))"
    if "op \<in> set [''ADD'', ''SUB'', ''AND'', ''OR'', ''SLT'', ''MULT'', ''SLL'']"
      and "getRegIndex (nth_opt parts 1) = Inr rd"
      and "getRegIndex (nth_opt parts 2) = Inr rs1"
      and "getRegIndex (nth_opt parts 3) = Inr rs2" for rd rs1 rs2
  proof -
    from step_rtype [OF f that] have
      "regs (snd (step s)) =
         write_back rd (alu op (reg_read (regs s) rs1) (reg_read (regs s) rs2)) (regs s)"
      by simp
    with len show ?thesis
      by (auto simp: reg_read_out_of_range alu_Undefined_left alu_Undefined_right)
  qed
  have itype: "regs (snd (step s)) = write_back rd 0 (regs s)"
    if "op \<in> set [''ADDI'', ''SLTI'']"
      and "getRegIndex (nth_opt parts 1) = Inr rd"
      and "getRegIndex (nth_opt parts 2) = Inr rs1" and "out_of_range rs1" for rd rs1
  proof -
    from step_itype [OF f that(1-3)] have
      "regs (snd (step s)) =
         write_back rd (alu_imm op (reg_read (regs s) rs1) (parseInt_arg (nth_opt parts 3)))
           (regs s)"
      by simp
    with len that(4) show ?thesis
      by (simp add: reg_read_out_of_range alu_imm_Undefined)
  qed
  have lw: "regs (snd (step s)) = write_back rd (mem_read (dataMemory s) NaN) (regs s)"
    if "op = ''LW''"
      and "getRegIndex (nth_opt parts 1) = Inr rd"
      and "getRegIndex (nth_opt parts 2) = Inr rs1" and "out_of_range rs1" for rd rs1
  proof -
    from f that(1) have f': "fetch_decode s = Some (ci, ''LW'', parts)" by simp
    from len that(4) have "js_add (to_number (reg_read (regs s) rs1))
        (parseInt_arg (nth_opt parts 3)) = NaN"
      by (simp add: reg_read_out_of_range)
    with step_lw [OF f' that(2,3) refl] show ?thesis by simp
  qed
  have sw: "(out_of_range rs2 \<longrightarrow>
          dataMemory (snd (step s)) =
            (dataMemory s)
              (js_add (to_number (reg_read (regs s) rs1))
                 (parseInt_arg (nth_opt parts 3)) \<mapsto> Undefined))
      \<and> (out_of_range rs1 \<longrightarrow>
          dataMemory (snd (step s)) = (dataMemory s)(NaN \<mapsto> reg_read (regs s) rs2))"
    if "op = ''SW''"
      and "getRegIndex (nth_opt parts 1) = Inr rs2"
      and "getRegIndex (nth_opt parts 2) = Inr rs1" for rs2 rs1
  proof -
    from f that(1) have f': "fetch_decode s = Some (ci, ''SW'', parts)" by simp
    from step_sw [OF f' that(2,3) refl] have
      "dataMemory (snd (step s)) =
         (dataMemory s)
           (js_add (to_number (reg_read (regs s) rs1)) (parseInt_arg (nth_opt parts 3))
              \<mapsto> reg_read (regs s) rs2)"
      by simp
    with len show ?thesis
      by (auto simp: reg_read_out_of_range)
  qed
  have pr: "logs (snd (step s)) = logs s @ [LogStep (pc s) (instr_text ci) (Saida Undefined)]"
    if "op = ''PRINT''" and "getRegIndex (nth_opt parts 1) = Inr reg" and "out_of_range reg"
    for reg
  proof -
    from f that(1) have f': "fetch_decode s = Some (ci, ''PRINT'', parts)" by simp
    from step_print [OF f' that(2)] len that(3) show ?thesis
      by (simp add: reg_read_out_of_range)
  qed
  from basic dest rtype itype lw sw pr show ?thesis
    by blast
qed


theorem out_of_range_register_does_not_fault_witness:
  "fetch_decode out_of_range_machine =
     Some (\<lparr>addr = 4, instr_text = ''ADD x99, x1, x1'',
             binary = ''??????? ????? ????? ??? 0110011''\<rparr>,
           ''ADD'', [''ADD'', ''x99'', ''x1'', ''x1''])
   \<and> length (regs out_of_range_machine) = 32
   \<and> register_tokens ''ADD'' < length [''ADD'', ''x99'', ''x1'', ''x1'']
   \<and> getRegIndex (nth_opt [''ADD'', ''x99'', ''x1'', ''x1''] 1) = Inr (Fin 99)
   \<and> out_of_range (Fin 99)
   \<and> is_executed (fst (step out_of_range_machine))
   \<and> pc (snd (step out_of_range_machine)) = pc out_of_range_machine + 4
   \<and> \<not> halted (snd (step out_of_range_machine))
   \<and> regs (snd (step out_of_range_machine)) = regs out_of_range_machine
   \<and> dataMemory (snd (step out_of_range_machine)) = dataMemory out_of_range_machine
   \<and> fetch_decode out_of_range_source_machine =
     Some (\<lparr>addr = 8, instr_text = ''ADD x2, x99, x1'',
             binary = ''??????? ????? ????? ??? 0110011''\<rparr>,
           ''ADD'', [''ADD'', ''x2'', ''x99'', ''x1''])
   \<and> length (regs out_of_range_source_machine) = 32
   \<and> register_tokens ''ADD'' < length [''ADD'', ''x2'', ''x99'', ''x1'']
   \<and> getRegIndex (nth_opt [''ADD'', ''x2'', ''x99'', ''x1''] 1) = Inr (Fin 2)
   \<and> getRegIndex (nth_opt [''ADD'', ''x2'', ''x99'', ''x1''] 2) = Inr (Fin 99)
   \<and> getRegIndex (nth_opt [''ADD'', ''x2'', ''x99'', ''x1''] 3) = Inr (Fin 1)
   \<and> regs out_of_range_source_machine ! 1 = 5
   \<and> regs out_of_range_source_machine ! 2 = 9
   \<and> is_executed (fst (step out_of_range_source_machine))
   \<and> regs (snd (step out_of_range_source_machine))
       = write_back (Fin 2) 0 (regs out_of_range_source_machine)
   \<and> regs (snd (step out_of_range_source_machine)) ! 2 = 0"
proof -
  have f: "fetch_decode out_of_range_machine =
     Some (\<lparr>addr = 4, instr_text = ''ADD x99, x1, x1'',
             binary = ''??????? ????? ????? ??? 0110011''\<rparr>,
           ''ADD'', [''ADD'', ''x99'', ''x1'', ''x1''])"
    by code_simp
  have l: "length (regs out_of_range_machine) = 32"
    by code_simp
  have t: "register_tokens ''ADD'' < length [''ADD'', ''x99'', ''x1'', ''x1'']"
    by code_simp
  have g: "getRegIndex (nth_opt [''ADD'', ''x99'', ''x1'', ''x1''] 1) = Inr (Fin 99)"
    by code_simp
  have o: "out_of_range (Fin 99)"
    by code_simp
  have f2: "fetch_decode out_of_range_source_machine =
     Some (\<lparr>addr = 8, instr_text = ''ADD x2, x99, x1'',
             binary = ''??????? ????? ????? ??? 0110011''\<rparr>,
           ''ADD'', [''ADD'', ''x2'', ''x99'', ''x1''])"
    by code_simp
  have l2: "length (regs out_of_range_source_machine) = 32"
    by code_simp
  have t2: "register_tokens ''ADD'' < length [''ADD'', ''x2'', ''x99'', ''x1'']"
    by code_simp
  have g1: "getRegIndex (nth_opt [''ADD'', ''x2'', ''x99'', ''x1''] 1) = Inr (Fin 2)"
    by code_simp
  have g2: "getRegIndex (nth_opt [''ADD'', ''x2'', ''x99'', ''x1''] 2) = Inr (Fin 99)"
    by code_simp
  have g3: "getRegIndex (nth_opt [''ADD'', ''x2'', ''x99'', ''x1''] 3) = Inr (Fin 1)"
    by code_simp
  have m: "''ADD'' \<in> set [''ADD'', ''SUB'', ''AND'', ''OR'', ''SLT'', ''MULT'', ''SLL'']"
    by simp
  have r: "regs out_of_range_source_machine =
      [0, 5, 9, 0, 0, 0, 0, 0, 0, 0, 0, 0, 0, 0, 0, 0,
       0, 0, 0, 0, 0, 0, 0, 0, 0, 0, 0, 0, 0, 0, 0, 0]"
    by code_simp
  note d = out_of_range_register_does_not_fault [OF f l t]
  note c = out_of_range_register_does_not_fault [OF f2 l2 t2]
  from d g o have dest: "is_executed (fst (step out_of_range_machine))
      \<and> pc (snd (step out_of_range_machine)) = pc out_of_range_machine + 4
      \<and> \<not> halted (snd (step out_of_range_machine))
      \<and> regs (snd (step out_of_range_machine)) = regs out_of_range_machine
      \<and> dataMemory (snd (step out_of_range_machine)) = dataMemory out_of_range_machine"
    by simp
  from c have ex: "is_executed (fst (step out_of_range_source_machine))"
    by blast
  from c have "''ADD'' \<in> set [''ADD'', ''SUB'', ''AND'', ''OR'', ''SLT'', ''MULT'', ''SLL'']
      \<and> getRegIndex (nth_opt [''ADD'', ''x2'', ''x99'', ''x1''] 1) = Inr (Fin 2)
      \<and> getRegIndex (nth_opt [''ADD'', ''x2'', ''x99'', ''x1''] 2) = Inr (Fin 99)
      \<and> getRegIndex (nth_opt [''ADD'', ''x2'', ''x99'', ''x1''] 3) = Inr (Fin 1)
      \<longrightarrow> (out_of_range (Fin 99) \<longrightarrow>
            regs (snd (step out_of_range_source_machine)) =
              write_back (Fin 2)
                (if ''ADD'' = ''OR''
                 then to_int32 (to_number (reg_read (regs out_of_range_source_machine) (Fin 1)))
                 else 0) (regs out_of_range_source_machine))"
    by blast
  with m g1 g2 g3 o have src: "regs (snd (step out_of_range_source_machine))
       = write_back (Fin 2) 0 (regs out_of_range_source_machine)"
    by simp
  then have z: "regs (snd (step out_of_range_source_machine)) ! 2 = 0"
    by (simp add: r write_back_def reg_write_def)
  from r have v: "regs out_of_range_source_machine ! 1 = 5"
    "regs out_of_range_source_machine ! 2 = 9"
    by simp_all
  from f l t g o dest f2 l2 t2 g1 g2 g3 v ex src z show ?thesis
    by simp
qed

section \<open>Store then load\<close>

lemma write_back_nth:
  assumes "0 < c" and "c < length rg"
  shows "write_back (Fin (int c)) v rg ! c = v"
  using assms by (simp add: write_back_def reg_write_def)

text \<open>C6: with registers \<open>x_a\<close> and \<open>x_c\<close> among the 32 of the machine and \<open>c\<close> not 0, the
  store \<open>SW x_a, x_b, k\<close> followed immediately by the load \<open>LW x_c, x_b, k\<close> (same base token
  index and same offset) leaves in \<open>x_c\<close> the value \<open>x_a\<close> held when the store ran. The store
  changes no register, so the base is the same for both; the address may be any number, NaN
  included.\<close>

theorem store_load_round_trip:
  assumes "fetch_decode s = Some (ci1, ''SW'', parts1)"
    and "getRegIndex (nth_opt parts1 1) = Inr (Fin (int a))"
    and "getRegIndex (nth_opt parts1 2) = Inr xb"
    and "fetch_decode (snd (step s)) = Some (ci2, ''LW'', parts2)"
    and "getRegIndex (nth_opt parts2 1) = Inr (Fin (int c))"
    and "getRegIndex (nth_opt parts2 2) = Inr xb"
    and "parseInt_arg (nth_opt parts2 3) = parseInt_arg (nth_opt parts1 3)"
    and "length (regs s) = 32" and "a < 32" and "0 < c" and "c < 32"
  shows "regs (snd (step (snd (step s)))) ! c = regs s ! a
       \<and> regs (snd (step s)) = regs s"
proof -
  let ?k = "parseInt_arg (nth_opt parts1 3)"
  let ?addr = "js_add (to_number (reg_read (regs s) xb)) ?k"
  let ?s1 = "snd (step s)"
  from assms(8,9) have va: "reg_read (regs s) (Fin (int a)) = I32 (regs s ! a)"
    by (simp add: reg_read_def)
  from assms(1-3) va have s1: "step s =
      (Executed (binary ci1),
       s\<lparr>regs := regs s, dataMemory := (dataMemory s)(?addr \<mapsto> I32 (regs s ! a)),
         logs := logs s @ [LogStep (pc s) (instr_text ci1) (Salvou (I32 (regs s ! a)) ?addr)],
         pc := pc s + 4\<rparr>)"
    by (simp add: step_fetched execute_sw)
  then have r1: "regs ?s1 = regs s"
    and m1: "dataMemory ?s1 = (dataMemory s)(?addr \<mapsto> I32 (regs s ! a))"
    by simp_all
  from assms(4-7) r1 m1 have "regs (snd (step ?s1)) =
      write_back (Fin (int c)) (mem_read ((dataMemory s)(?addr \<mapsto> I32 (regs s ! a))) ?addr)
        (regs s)"
    by (simp add: step_fetched execute_lw)
  moreover have "mem_read ((dataMemory s)(?addr \<mapsto> I32 (regs s ! a))) ?addr = regs s ! a"
    by (simp add: mem_read_def)
  ultimately show ?thesis
    using assms(8,10,11) r1 by (simp add: write_back_nth)
qed

theorem store_load_round_trip_witness:
  "fetch_decode round_trip_machine =
     Some (\<lparr>addr = 8, instr_text = ''SW x1, x2, 4'',
             binary = ''??????? ????? ????? ??? 0100011''\<rparr>,
           ''SW'', [''SW'', ''x1'', ''x2'', ''4''])
   \<and> fetch_decode (snd (step round_trip_machine)) =
     Some (\<lparr>addr = 12, instr_text = ''LW x3, x2, 4'',
             binary = ''??????? ????? ????? ??? 0000011''\<rparr>,
           ''LW'', [''LW'', ''x3'', ''x2'', ''4''])
   \<and> regs round_trip_machine ! 1 = 99
   \<and> regs (snd (step (snd (step round_trip_machine)))) ! 3 = 99"
proof -
  have f1: "fetch_decode round_trip_machine =
     Some (\<lparr>addr = 8, instr_text = ''SW x1, x2, 4'',
             binary = ''??????? ????? ????? ??? 0100011''\<rparr>,
           ''SW'', [''SW'', ''x1'', ''x2'', ''4''])"
    by code_simp
  have f2: "fetch_decode (snd (step round_trip_machine)) =
     Some (\<lparr>addr = 12, instr_text = ''LW x3, x2, 4'',
             binary = ''??????? ????? ????? ??? 0000011''\<rparr>,
           ''LW'', [''LW'', ''x3'', ''x2'', ''4''])"
    by code_simp
  have a: "getRegIndex (nth_opt [''SW'', ''x1'', ''x2'', ''4''] 1) = Inr (Fin (int 1))"
    by code_simp
  have b1: "getRegIndex (nth_opt [''SW'', ''x1'', ''x2'', ''4''] 2) = Inr (Fin 2)"
    by code_simp
  have c: "getRegIndex (nth_opt [''LW'', ''x3'', ''x2'', ''4''] 1) = Inr (Fin (int 3))"
    by code_simp
  have b2: "getRegIndex (nth_opt [''LW'', ''x3'', ''x2'', ''4''] 2) = Inr (Fin 2)"
    by code_simp
  have k: "parseInt_arg (nth_opt [''LW'', ''x3'', ''x2'', ''4''] 3)
         = parseInt_arg (nth_opt [''SW'', ''x1'', ''x2'', ''4''] 3)"
    by code_simp
  have l: "length (regs round_trip_machine) = 32"
    by code_simp
  have v: "regs round_trip_machine ! 1 = 99"
    by code_simp
  from store_load_round_trip [OF f1 a b1 f2 c b2 k l] f1 f2 v show ?thesis
    by simp
qed

section \<open>The two variants on one state\<close>

lemma includes_paren_cases:
  "(t = None \<and> includes_paren t = Inl (TypeError ''includes'')
      \<and> getRegIndex t = Inl (TypeError ''replace''))
   \<or> (\<exists>b idx. includes_paren t = Inr b \<and> getRegIndex t = Inr idx)"
  by (cases t) (simp_all add: includes_paren_def getRegIndex_def Let_def)

text \<open>The \<open>try\<close> blocks of the two variants agree on every result; when they throw, the
  exceptions may differ in their message only.\<close>

lemma execute_script_eq:
  "(\<exists>e e'. execute_script op parts rg mem = Inl e \<and> execute op parts rg mem = Inl e')
   \<or> (\<exists>r. execute_script op parts rg mem = Inr r \<and> execute op parts rg mem = Inr r)"
proof -
  consider (r) "op \<in> set [''ADD'', ''SUB'', ''AND'', ''OR'', ''SLT'', ''MULT'', ''SLL'']"
    | (i) "op \<in> set [''ADDI'', ''SLTI'']" | (lw) "op = ''LW''" | (sw) "op = ''SW''"
    | (pr) "op = ''PRINT''" | (un) "op \<notin> set known_mnemonics"
    by (auto simp: known_mnemonics_def)
  then show ?thesis
  proof cases
    case r
    then have a: "op \<in> set [''ADD'', ''SUB'', ''AND'', ''OR'', ''SLT'', ''MULT'', ''ADDI'',
        ''SLTI'', ''SLL'']" and b: "op \<notin> set [''ADDI'', ''SLTI'']"
      by auto
    from r a b show ?thesis
      by (cases "getRegIndex (nth_opt parts 1)"; cases "getRegIndex (nth_opt parts 2)";
          cases "getRegIndex (nth_opt parts 3)")
        (simp_all add: execute_def execute_script_def alu_script_eq del: set_simps)
  next
    case i
    then have a: "op \<in> set [''ADD'', ''SUB'', ''AND'', ''OR'', ''SLT'', ''MULT'', ''ADDI'',
        ''SLTI'', ''SLL'']"
      and b: "op \<notin> set [''ADD'', ''SUB'', ''AND'', ''OR'', ''SLT'', ''MULT'', ''SLL'']"
      by auto
    from i a b show ?thesis
      by (cases "getRegIndex (nth_opt parts 1)"; cases "getRegIndex (nth_opt parts 2)")
        (simp_all add: execute_def execute_script_def alu_imm_script_eq Let_def del: set_simps)
  next
    case lw
    from includes_paren_cases [of "nth_opt parts 2"] lw show ?thesis
      by (cases "getRegIndex (nth_opt parts 1)")
        (auto simp add: execute_def execute_script_def Let_def)
  next
    case sw
    then show ?thesis
      by (cases "getRegIndex (nth_opt parts 1)"; cases "getRegIndex (nth_opt parts 2)")
        (simp_all add: execute_def execute_script_def Let_def)
  next
    case pr
    then show ?thesis
      by (cases "getRegIndex (nth_opt parts 1)")
        (simp_all add: execute_def execute_script_def)
  next
    case un
    then show ?thesis by (simp add: execute_unknown execute_script_unknown)
  qed
qed

lemma step_script_vs_step:
  "core_state (snd (step_script s)) = core_state (snd (step s))
   \<and> instrMemory (snd (step_script s)) = instrMemory s
   \<and> instrMemory (snd (step s)) = instrMemory s
   \<and> is_executed (fst (step_script s)) = is_executed (fst (step s))
   \<and> (fst (step_script s) = ReturnFalse) = (fst (step s) = ReturnFalse)"
proof (cases "fetch_decode s")
  case None
  then show ?thesis
    by (simp add: step_not_fetched step_script_not_fetched)
next
  case (Some t)
  obtain ci op parts where "t = (ci, op, parts)" by (cases t)
  with Some have f: "fetch_decode s = Some (ci, op, parts)" by simp
  from execute_script_eq [of op parts "regs s" "dataMemory s"] show ?thesis
  proof (elim disjE exE conjE)
    fix e e'
    assume "execute_script op parts (regs s) (dataMemory s) = Inl e"
      and "execute op parts (regs s) (dataMemory s) = Inl e'"
    with f show ?thesis
      by (simp add: step_fetched step_script_fetched core_state_def is_executed_def)
  next
    fix r
    assume "execute_script op parts (regs s) (dataMemory s) = Inr r"
      and "execute op parts (regs s) (dataMemory s) = Inr r"
    with f show ?thesis
      by (cases r) (simp add: step_fetched step_script_fetched core_state_def is_executed_def)
  qed
qed

text \<open>No exception leaves \<open>step\<close>, in either variant: a call returns false or the success
  object.\<close>

lemma step_never_throws: "fst (step s) = ReturnFalse \<or> is_executed (fst (step s))"
  using step_cases [of s] by (auto simp: is_executed_def)

lemma step_script_never_throws:
  "fst (step_script s) = ReturnFalse \<or> is_executed (fst (step_script s))"
  using step_never_throws [of s] step_script_vs_step [of s] by simp

section \<open>Register 0\<close>

lemma write_back_length [simp]: "length (write_back rd v rg) = length rg"
  by (simp add: write_back_def reg_write_def split: jsnum.splits)

lemma write_back_nth_0: "write_back rd v rg ! 0 = rg ! 0"
  by (auto simp: write_back_def reg_write_def split: jsnum.splits)

lemma write_back_zero [simp]: "write_back (Fin 0) v rg = rg"
  by (simp add: write_back_def)

lemma step_keeps_register_0:
  assumes "length (regs s) = 32" and "regs s ! 0 = 0"
  shows "length (regs (snd (step s))) = 32 \<and> regs (snd (step s)) ! 0 = 0"
  using step_cases [of s]
proof (elim disjE exE conjE)
  fix ci op parts rg mem an
  assume ex: "execute op parts (regs s) (dataMemory s) = Inr (rg, mem, an)"
    and st: "step s = (Executed (binary ci),
        s\<lparr>regs := rg, dataMemory := mem,
          logs := logs s @ [LogStep (pc s) (instr_text ci) an], pc := pc s + 4\<rparr>)"
  from execute_effect [OF ex] assms have "length rg = 32 \<and> rg ! 0 = 0"
    by (auto simp: write_back_nth_0)
  with st show ?thesis by simp
qed (use assms in auto)

lemma loadProgram_regs: "regs (loadProgram t s) = replicate 32 0"
  by (simp add: loadProgram_def reset_def Let_def)

lemma loadProgram_script_regs: "regs (loadProgram_script t s) = replicate 32 0"
  by (simp add: loadProgram_script_def reset_def Let_def)

lemma run_keeps_register_0:
  assumes "length (regs s) = 32" and "regs s ! 0 = 0"
  shows "length (regs (run cs s)) = 32 \<and> regs (run cs s) ! 0 = 0"
  using assms
proof (induction cs arbitrary: s)
  case Nil
  then show ?case by simp
next
  case (Cons c cs)
  show ?case
  proof (cases c)
    case (CallLoad t)
    with Cons.IH [of "loadProgram t s"] show ?thesis
      by (simp add: loadProgram_regs)
  next
    case CallStep
    with Cons.IH [of "snd (step s)"] step_keeps_register_0 [OF Cons.prems] show ?thesis
      by simp
  qed
qed

lemma run_script_keeps_register_0:
  assumes "length (regs s) = 32" and "regs s ! 0 = 0"
  shows "length (regs (run_script cs s)) = 32 \<and> regs (run_script cs s) ! 0 = 0"
  using assms
proof (induction cs arbitrary: s)
  case Nil
  then show ?case by simp
next
  case (Cons c cs)
  show ?case
  proof (cases c)
    case (CallLoad t)
    with Cons.IH [of "loadProgram_script t s"] show ?thesis
      by (simp add: loadProgram_script_regs)
  next
    case CallStep
    have "regs (snd (step_script s)) = regs (snd (step s))"
      using step_script_vs_step [of s] by (simp add: core_state_def)
    with CallStep Cons.IH [of "snd (step_script s)"] step_keeps_register_0 [OF Cons.prems]
    show ?thesis by simp
  qed
qed

text \<open>C3: register 0 reads as 0 after every sequence of \<open>loadProgram\<close> and \<open>step\<close> calls on a
  new simulator, in both variants. A write-back whose destination index is 0 is skipped: it
  leaves the register array as it is, and a step executing an arithmetic, immediate or load
  instruction with destination 0 changes neither registers nor data memory nor \<open>halted\<close>; all
  the step does is append its trace line and advance the program counter.\<close>

theorem register_zero_is_invariant:
  "reg_read (regs (run cs new_sim)) (Fin 0) = I32 0
   \<and> reg_read (regs (run_script cs new_sim)) (Fin 0) = I32 0
   \<and> write_back (Fin 0) v rg = rg
   \<and> (fetch_decode s = Some (ci, op, parts)
        \<and> op \<in> set [''ADD'', ''SUB'', ''AND'', ''OR'', ''SLT'', ''MULT'', ''SLL'', ''ADDI'',
                     ''SLTI'', ''LW'']
        \<and> register_tokens op < length parts
        \<and> getRegIndex (nth_opt parts 1) = Inr (Fin 0)
      \<longrightarrow> (\<exists>an. step s =
                  (Executed (binary ci),
                   s\<lparr>logs := logs s @ [LogStep (pc s) (instr_text ci) an], pc := pc s + 4\<rparr>))
        \<and> (\<exists>an. step_script s =
                  (Executed (binary ci),
                   s\<lparr>logs := logs s @ [LogStep (pc s) (instr_text ci) an], pc := pc s + 4\<rparr>)))"
proof (intro conjI impI)
  have n: "length (regs new_sim) = 32" "regs new_sim ! 0 = 0"
    by (simp_all add: new_sim_def)
  from run_keeps_register_0 [OF n] show "reg_read (regs (run cs new_sim)) (Fin 0) = I32 0"
    by (simp add: reg_read_def)
  from run_script_keeps_register_0 [OF n]
  show "reg_read (regs (run_script cs new_sim)) (Fin 0) = I32 0"
    by (simp add: reg_read_def)
  show "write_back (Fin 0) v rg = rg"
    by simp
next
  assume a: "fetch_decode s = Some (ci, op, parts)
        \<and> op \<in> set [''ADD'', ''SUB'', ''AND'', ''OR'', ''SLT'', ''MULT'', ''SLL'', ''ADDI'',
                     ''SLTI'', ''LW'']
        \<and> register_tokens op < length parts
        \<and> getRegIndex (nth_opt parts 1) = Inr (Fin 0)"
  then have f: "fetch_decode s = Some (ci, op, parts)"
    and t: "register_tokens op < length parts"
    and z: "getRegIndex (nth_opt parts 1) = Inr (Fin 0)" and nsw: "op \<noteq> ''SW''"
    by auto
  from t obtain rg mem an
    where ex: "execute op parts (regs s) (dataMemory s) = Inr (rg, mem, an)"
    using execute_ok by blast
  from execute_effect [OF ex] z nsw have same: "rg = regs s" "mem = dataMemory s"
    by auto
  with ex have ex': "execute op parts (regs s) (dataMemory s) = Inr (regs s, dataMemory s, an)"
    by simp
  with execute_script_eq [of op parts "regs s" "dataMemory s"]
  have exs: "execute_script op parts (regs s) (dataMemory s) = Inr (regs s, dataMemory s, an)"
    by auto
  from f ex' have "step s =
                  (Executed (binary ci),
                   s\<lparr>logs := logs s @ [LogStep (pc s) (instr_text ci) an], pc := pc s + 4\<rparr>)"
    by (simp add: step_fetched)
  then show "\<exists>an. step s =
                  (Executed (binary ci),
                   s\<lparr>logs := logs s @ [LogStep (pc s) (instr_text ci) an], pc := pc s + 4\<rparr>)"
    by (rule exI)
  from f exs have "step_script s =
                  (Executed (binary ci),
                   s\<lparr>logs := logs s @ [LogStep (pc s) (instr_text ci) an], pc := pc s + 4\<rparr>)"
    by (simp add: step_script_fetched)
  then show "\<exists>an. step_script s =
                  (Executed (binary ci),
                   s\<lparr>logs := logs s @ [LogStep (pc s) (instr_text ci) an], pc := pc s + 4\<rparr>)"
    by (rule exI)
qed

theorem register_zero_is_invariant_witness:
  "fetch_decode write_zero_machine =
     Some (\<lparr>addr = 4, instr_text = ''ADD x0, x1, x1'',
             binary = ''??????? ????? ????? ??? 0110011''\<rparr>,
           ''ADD'', [''ADD'', ''x0'', ''x1'', ''x1''])
   \<and> register_tokens ''ADD'' < length [''ADD'', ''x0'', ''x1'', ''x1'']
   \<and> getRegIndex (nth_opt [''ADD'', ''x0'', ''x1'', ''x1''] 1) = Inr (Fin 0)
   \<and> reg_read (regs write_zero_machine) (Fin 1) = I32 7
   \<and> (\<exists>an. step write_zero_machine =
         (Executed ''??????? ????? ????? ??? 0110011'',
          write_zero_machine\<lparr>logs := logs write_zero_machine
                                 @ [LogStep (pc write_zero_machine) ''ADD x0, x1, x1'' an],
            pc := pc write_zero_machine + 4\<rparr>))"
proof -
  have f: "fetch_decode write_zero_machine =
     Some (\<lparr>addr = 4, instr_text = ''ADD x0, x1, x1'',
             binary = ''??????? ????? ????? ??? 0110011''\<rparr>,
           ''ADD'', [''ADD'', ''x0'', ''x1'', ''x1''])"
    by code_simp
  have t: "register_tokens ''ADD'' < length [''ADD'', ''x0'', ''x1'', ''x1'']"
    by code_simp
  have z: "getRegIndex (nth_opt [''ADD'', ''x0'', ''x1'', ''x1''] 1) = Inr (Fin 0)"
    by code_simp
  have v: "reg_read (regs write_zero_machine) (Fin 1) = I32 7"
    by code_simp
  have m: "''ADD'' \<in> set [''ADD'', ''SUB'', ''AND'', ''OR'', ''SLT'', ''MULT'', ''SLL'', ''ADDI'',
                     ''SLTI'', ''LW'']"
    by simp
  have "fetch_decode write_zero_machine =
     Some (\<lparr>addr = 4, instr_text = ''ADD x0, x1, x1'',
             binary = ''??????? ????? ????? ??? 0110011''\<rparr>,
           ''ADD'', [''ADD'', ''x0'', ''x1'', ''x1''])
     \<and> ''ADD'' \<in> set [''ADD'', ''SUB'', ''AND'', ''OR'', ''SLT'', ''MULT'', ''SLL'', ''ADDI'',
                     ''SLTI'', ''LW'']
     \<and> register_tokens ''ADD'' < length [''ADD'', ''x0'', ''x1'', ''x1'']
     \<and> getRegIndex (nth_opt [''ADD'', ''x0'', ''x1'', ''x1''] 1) = Inr (Fin 0)
     \<longrightarrow> (\<exists>an. step write_zero_machine =
         (Executed (binary \<lparr>addr = 4, instr_text = ''ADD x0, x1, x1'',
             binary = ''??????? ????? ????? ??? 0110011''\<rparr>),
          write_zero_machine\<lparr>logs := logs write_zero_machine
               @ [LogStep (pc write_zero_machine)
                   (instr_text \<lparr>addr = 4, instr_text = ''ADD x0, x1, x1'',
             binary = ''??????? ????? ????? ??? 0110011''\<rparr>) an],
            pc := pc write_zero_machine + 4\<rparr>))
       \<and> (\<exists>an. step_script write_zero_machine =
         (Executed (binary \<lparr>addr = 4, instr_text = ''ADD x0, x1, x1'',
             binary = ''??????? ????? ????? ??? 0110011''\<rparr>),
          write_zero_machine\<lparr>logs := logs write_zero_machine
               @ [LogStep (pc write_zero_machine)
                   (instr_text \<lparr>addr = 4, instr_text = ''ADD x0, x1, x1'',
             binary = ''??????? ????? ????? ??? 0110011''\<rparr>) an],
            pc := pc write_zero_machine + 4\<rparr>))"
    by (rule register_zero_is_invariant [THEN conjunct2, THEN conjunct2, THEN conjunct2])
  with f t z v m show ?thesis
    by simp
qed

section \<open>The program counter\<close>

lemma step_pc: "pc (snd (step s)) = (if is_executed (fst (step s)) then pc s + 4 else pc s)"
  using step_cases [of s] by (auto simp: is_executed_def)

lemma step_script_pc:
  "pc (snd (step_script s)) = (if is_executed (fst (step_script s)) then pc s + 4 else pc s)"
  using step_script_vs_step [of s] step_pc [of s] by (simp add: core_state_def)

lemma steps_length: "length (fst (steps n s)) = n"
  by (induction n arbitrary: s) (simp_all add: split_beta)

lemma steps_script_length: "length (fst (steps_script n s)) = n"
  by (induction n arbitrary: s) (simp_all add: split_beta)

lemma steps_pc:
  "pc (snd (steps n s)) = pc s + 4 * length (filter is_executed (fst (steps n s)))"
  by (induction n arbitrary: s) (simp_all add: split_beta step_pc)

lemma steps_script_pc:
  "pc (snd (steps_script n s)) = pc s + 4 * length (filter is_executed (fst (steps_script n s)))"
  by (induction n arbitrary: s) (simp_all add: split_beta step_script_pc)

lemma loadProgram_pc: "pc (loadProgram t s) = 0"
  by (simp add: loadProgram_def reset_def Let_def)

lemma loadProgram_script_pc: "pc (loadProgram_script t s) = 0"
  by (simp add: loadProgram_script_def reset_def Let_def)

lemma filter_all: "list_all P xs \<Longrightarrow> filter P xs = xs"
  by (induction xs) simp_all

text \<open>C4: after loading any program, the program counter after \<open>n\<close> calls of \<open>step\<close> is four
  times the number of those calls that returned the success object; a call that returns false
  leaves it alone. So after \<open>n\<close> successful steps it equals \<open>4n\<close>. This holds in both
  variants.\<close>

theorem pc_counts_successful_steps:
  "pc (snd (steps n (loadProgram t s)))
     = 4 * length (filter is_executed (fst (steps n (loadProgram t s))))
   \<and> (list_all is_executed (fst (steps n (loadProgram t s)))
        \<longrightarrow> pc (snd (steps n (loadProgram t s))) = 4 * n)
   \<and> pc (snd (steps_script n (loadProgram_script t s)))
     = 4 * length (filter is_executed (fst (steps_script n (loadProgram_script t s))))
   \<and> (list_all is_executed (fst (steps_script n (loadProgram_script t s)))
        \<longrightarrow> pc (snd (steps_script n (loadProgram_script t s))) = 4 * n)"
  by (simp add: steps_pc steps_script_pc loadProgram_pc loadProgram_script_pc filter_all
      steps_length steps_script_length)

theorem pc_counts_successful_steps_witness:
  "list_all is_executed (fst (steps 2 (loadProgram ''ADDI x1, x0, 15\<newline>FOO x2'' new_sim)))
   \<and> pc (snd (steps 2 (loadProgram ''ADDI x1, x0, 15\<newline>FOO x2'' new_sim))) = 4 * 2
   \<and> list_all is_executed
       (fst (steps_script 2 (loadProgram_script ''ADDI x1, x0, 15\<newline>FOO x2'' new_sim)))
   \<and> pc (snd (steps_script 2 (loadProgram_script ''ADDI x1, x0, 15\<newline>FOO x2'' new_sim))) = 4 * 2"
proof -
  have a: "list_all is_executed
      (fst (steps 2 (loadProgram ''ADDI x1, x0, 15\<newline>FOO x2'' new_sim)))"
    by code_simp
  have b: "list_all is_executed
      (fst (steps_script 2 (loadProgram_script ''ADDI x1, x0, 15\<newline>FOO x2'' new_sim)))"
    by code_simp
  from pc_counts_successful_steps [of 2 "''ADDI x1, x0, 15\<newline>FOO x2''" new_sim] a b
  show ?thesis by simp
qed

section \<open>Loading a program\<close>

lemma load_lines_eq:
  "load_lines ls a im =
     im @ map (\<lambda>(k, l). \<lparr>addr = a + 4 * k, instr_text = l, binary = generateFakeBinary l\<rparr>)
            (enumerate 0 (filter (\<lambda>l. l \<noteq> [] \<and> \<not> startsWith l (CHR ''#'')) (map trim ls)))"
proof (induction ls arbitrary: a im)
  case Nil
  then show ?case by simp
next
  case (Cons line rest)
  show ?case
    by (simp add: Cons.IH Let_def enumerate_Suc_eq [of 0] split_beta o_def)
qed

lemma load_lines_script_eq:
  "load_lines_script ls a im =
     im @ map (\<lambda>(k, l). \<lparr>addr = a + 4 * k, instr_text = l,
                          binary = generateFakeBinary_script l\<rparr>)
            (enumerate 0 (filter (\<lambda>l. l \<noteq> [] \<and> \<not> startsWith l (CHR ''#'')) (map trim ls)))"
proof (induction ls arbitrary: a im)
  case Nil
  then show ?case by simp
next
  case (Cons line rest)
  show ?case
    by (simp add: Cons.IH Let_def enumerate_Suc_eq [of 0] split_beta o_def)
qed

lemma loadProgram_instrMemory: "instrMemory (loadProgram text0 s) = spec_records text0"
  by (simp add: loadProgram_def reset_def Let_def load_lines_eq spec_records_def
      spec_accepted_lines_def)

lemma enumerate_eq_Nil [simp]: "enumerate n xs = [] \<longleftrightarrow> xs = []"
  by (cases xs) simp_all

lemma map_of_fst_enumerate:
  "map (\<lambda>x. f (fst x)) (enumerate n xs) = map f [n..<n + length xs]"
proof -
  have "map (\<lambda>x. f (fst x)) (enumerate n xs) = map f (map fst (enumerate n xs))"
    by (simp add: o_def del: map_fst_enumerate)
  then show ?thesis by simp
qed

lemma spec_records_addr:
  "map addr (spec_records text0) = map (\<lambda>k. 4 * k) [0..<length (spec_accepted_lines text0)]"
  by (simp add: spec_records_def split_beta o_def map_of_fst_enumerate)

lemma spec_records_text: "map instr_text (spec_records text0) = spec_accepted_lines text0"
proof -
  have "map instr_text (spec_records text0) = map snd (enumerate 0 (spec_accepted_lines text0))"
    by (simp add: spec_records_def split_beta o_def)
  then show ?thesis by simp
qed

lemma spec_records_Nil: "spec_records text0 = [] \<longleftrightarrow> spec_accepted_lines text0 = []"
  by (simp add: spec_records_def)

text \<open>C7: \<open>loadProgram\<close> discards the previous state whatever it was. Afterwards the registers
  are 32 zeros, the data memory is empty, the program counter is 0, the trace holds the load
  message only, and the instruction list is the list of accepted lines -- the trimmed lines
  of the text that are neither empty nor start with \<open>#\<close>, in order -- the \<open>k\<close>-th of them
  (from 0) at address \<open>4k\<close>. \<open>halted\<close> is false exactly when some line was accepted.\<close>

theorem loadProgram_builds_program:
  "loadProgram text0 s =
     \<lparr>pc = 0, regs = replicate 32 0, instrMemory = spec_records text0,
      dataMemory = Map.empty, halted = (spec_accepted_lines text0 = []), logs = [LogLoaded]\<rparr>
   \<and> map addr (spec_records text0) = map (\<lambda>k. 4 * k) [0..<length (spec_accepted_lines text0)]
   \<and> map instr_text (spec_records text0) = spec_accepted_lines text0
   \<and> (\<not> halted (loadProgram text0 s)) = (spec_accepted_lines text0 \<noteq> [])"
proof -
  have "loadProgram text0 s =
     \<lparr>pc = 0, regs = replicate 32 0, instrMemory = spec_records text0,
      dataMemory = Map.empty, halted = (spec_accepted_lines text0 = []), logs = [LogLoaded]\<rparr>"
    by (cases s)
      (simp add: loadProgram_def reset_def Let_def load_lines_eq spec_records_def
        spec_accepted_lines_def)
  then show ?thesis
    by (simp add: spec_records_addr spec_records_text)
qed


theorem loadProgram_builds_program_witness:
  "spec_accepted_lines ''# demo\<newline>\<newline>  ADDI x1, x0, 1  \<newline>SW x1, x0, 0''
     = [''ADDI x1, x0, 1'', ''SW x1, x0, 0'']
   \<and> instrMemory (loadProgram ''# demo\<newline>\<newline>  ADDI x1, x0, 1  \<newline>SW x1, x0, 0'' new_sim)
     = [\<lparr>addr = 0, instr_text = ''ADDI x1, x0, 1'', binary = ''??????? ????? ????? ??? 0010011''\<rparr>,
        \<lparr>addr = 4, instr_text = ''SW x1, x0, 0'', binary = ''??????? ????? ????? ??? 0100011''\<rparr>]
   \<and> halted (loadProgram ''# demo\<newline>\<newline>  ADDI x1, x0, 1  \<newline>SW x1, x0, 0'' new_sim) = False
   \<and> halted (loadProgram ''# only a comment\<newline>   '' new_sim) = True"
proof -
  have a: "spec_accepted_lines ''# demo\<newline>\<newline>  ADDI x1, x0, 1  \<newline>SW x1, x0, 0''
     = [''ADDI x1, x0, 1'', ''SW x1, x0, 0'']"
    by code_simp
  have r: "spec_records ''# demo\<newline>\<newline>  ADDI x1, x0, 1  \<newline>SW x1, x0, 0''
     = [\<lparr>addr = 0, instr_text = ''ADDI x1, x0, 1'', binary = ''??????? ????? ????? ??? 0010011''\<rparr>,
        \<lparr>addr = 4, instr_text = ''SW x1, x0, 0'', binary = ''??????? ????? ????? ??? 0100011''\<rparr>]"
    by code_simp
  have b: "spec_accepted_lines ''# only a comment\<newline>   '' = []"
    by code_simp
  from loadProgram_builds_program
         [of "''# demo\<newline>\<newline>  ADDI x1, x0, 1  \<newline>SW x1, x0, 0''" new_sim]
       loadProgram_builds_program [of "''# only a comment\<newline>   ''" new_sim] a r b
  show ?thesis by simp
qed

section \<open>Equivalence of the two variants\<close>

lemma find_same_program:
  assumes "map addr xs = map addr ys" and "map instr_text xs = map instr_text ys"
  shows "(find (\<lambda>i. addr i = p) xs = None \<and> find (\<lambda>i. addr i = p) ys = None)
       \<or> (\<exists>i j. find (\<lambda>i. addr i = p) xs = Some i \<and> find (\<lambda>i. addr i = p) ys = Some j
              \<and> instr_text i = instr_text j)"
  using assms
proof (induction xs arbitrary: ys)
  case Nil
  then show ?case by simp
next
  case (Cons x xs)
  then obtain y ys' where ys: "ys = y # ys'" by (cases ys) auto
  with Cons.prems have "addr x = addr y" and "instr_text x = instr_text y"
    and "map addr xs = map addr ys'" and "map instr_text xs = map instr_text ys'"
    by simp_all
  with Cons.IH [of ys'] ys show ?case by auto
qed

lemma fetch_decode_same_machine:
  assumes "same_machine s t"
  shows "(fetch_decode s = None \<and> fetch_decode t = None)
       \<or> (\<exists>ci cj op parts. fetch_decode s = Some (ci, op, parts)
              \<and> fetch_decode t = Some (cj, op, parts) \<and> instr_text ci = instr_text cj)"
proof -
  from assms have h: "halted s = halted t" and p: "pc s = pc t"
    and a: "map addr (instrMemory s) = map addr (instrMemory t)"
    and x: "map instr_text (instrMemory s) = map instr_text (instrMemory t)"
    by (simp_all add: same_machine_def core_state_def)
  from find_same_program [OF a x, of "pc s"] show ?thesis
  proof (elim disjE exE conjE)
    assume "find (\<lambda>i. addr i = pc s) (instrMemory s) = None"
      and "find (\<lambda>i. addr i = pc s) (instrMemory t) = None"
    with h p show ?thesis by (simp add: fetch_decode_def)
  next
    fix i j
    assume "find (\<lambda>i. addr i = pc s) (instrMemory s) = Some i"
      and "find (\<lambda>i. addr i = pc s) (instrMemory t) = Some j"
      and "instr_text i = instr_text j"
    with h p show ?thesis
      by (cases "decode (instr_text j)") (simp_all add: fetch_decode_def)
  qed
qed

lemma step_same_machine:
  assumes "same_machine s t"
  shows "same_machine (snd (step s)) (snd (step t))
       \<and> is_executed (fst (step s)) = is_executed (fst (step t))
       \<and> (fst (step s) = ReturnFalse) = (fst (step t) = ReturnFalse)"
proof -
  from assms have eq: "halted s = halted t" "pc s = pc t" "regs s = regs t"
    "dataMemory s = dataMemory t"
    by (simp_all add: same_machine_def core_state_def)
  from fetch_decode_same_machine [OF assms] show ?thesis
  proof (elim disjE exE conjE)
    assume "fetch_decode s = None" and "fetch_decode t = None"
    with assms eq show ?thesis
      by (simp add: step_not_fetched same_machine_def core_state_def)
  next
    fix ci cj op parts
    assume f: "fetch_decode s = Some (ci, op, parts)" "fetch_decode t = Some (cj, op, parts)"
    show ?thesis
    proof (cases "execute op parts (regs t) (dataMemory t)")
      case (Inl e)
      with f assms eq show ?thesis
        by (simp add: step_fetched same_machine_def core_state_def is_executed_def)
    next
      case (Inr r)
      with f assms eq show ?thesis
        by (cases r) (simp add: step_fetched same_machine_def core_state_def is_executed_def)
    qed
  qed
qed

lemma step_script_same_machine:
  assumes "same_machine s t"
  shows "same_machine (snd (step s)) (snd (step_script t))
       \<and> is_executed (fst (step s)) = is_executed (fst (step_script t))
       \<and> (fst (step s) = ReturnFalse) = (fst (step_script t) = ReturnFalse)"
  using step_same_machine [OF assms] step_script_vs_step [of t]
  by (simp add: same_machine_def)

lemma steps_same_machine:
  assumes "same_machine s t"
  shows "same_machine (snd (steps n s)) (snd (steps_script n t))
       \<and> map is_executed (fst (steps n s)) = map is_executed (fst (steps_script n t))
       \<and> map (\<lambda>r. r = ReturnFalse) (fst (steps n s))
           = map (\<lambda>r. r = ReturnFalse) (fst (steps_script n t))"
  using assms
proof (induction n arbitrary: s t)
  case 0
  then show ?case by simp
next
  case (Suc n)
  from step_script_same_machine [OF Suc.prems]
  have m: "same_machine (snd (step s)) (snd (step_script t))"
    and e: "is_executed (fst (step s)) = is_executed (fst (step_script t))"
    and r: "(fst (step s) = ReturnFalse) = (fst (step_script t) = ReturnFalse)"
    by simp_all
  from Suc.IH [OF m] e r show ?case
    by (simp add: split_beta)
qed

lemma loadProgram_same_machine: "same_machine (loadProgram text0 a) (loadProgram_script text0 b)"
  by (simp add: same_machine_def core_state_def loadProgram_def loadProgram_script_def
      reset_def Let_def load_lines_eq load_lines_script_eq split_beta o_def)

text \<open>C10: load the same text into both variants and call \<open>step\<close> \<open>n\<close> times on each. The
  program counter, the \<open>halted\<close> flag, the registers and the data memory come out the same,
  and call by call the two agree on returning the success object or false. (The display
  strings and the wording of the trace do differ.)\<close>

theorem variants_are_equivalent:
  "core_state (snd (steps n (loadProgram text0 a)))
     = core_state (snd (steps_script n (loadProgram_script text0 b)))
   \<and> map is_executed (fst (steps n (loadProgram text0 a)))
     = map is_executed (fst (steps_script n (loadProgram_script text0 b)))
   \<and> map (\<lambda>r. r = ReturnFalse) (fst (steps n (loadProgram text0 a)))
     = map (\<lambda>r. r = ReturnFalse) (fst (steps_script n (loadProgram_script text0 b)))"
  using steps_same_machine [OF loadProgram_same_machine, of n text0 a b]
  by (simp add: same_machine_def)

end
